theory Spec2Isabelle
  imports Main "HOL-Library.Char_ord" "HOL-Library.List_Lexorder" "HOL-Library.Multiset"
begin

section \<open>The exercise editor: the save-exercise handler of server.js\<close>

text \<open>
  The development embeds the second server of \<^verbatim>\<open>src/server.js\<close>, the one with the route
  \<^verbatim>\<open>POST /save-exercise\<close>: the collection of the identifiers already taken, the recursive
  \<^verbatim>\<open>processVariations\<close>, the branch that updates and the branch that adds, the final sort
  and the commit.

  Strings are lists of code units below 256. A form field that may be absent is a
  \<open>string option\<close>, with \<open>None\<close> for JavaScript's \<^verbatim>\<open>undefined\<close>; a field is truthy when
  it is present and not the empty string. The fields of a request are strings or absent,
  and \<^verbatim>\<open>variations\<close>, \<^verbatim>\<open>subVariations\<close> and \<^verbatim>\<open>executionTypes\<close> are arrays or absent, as
  the form of the editor sends them.
\<close>

subsection \<open>Strings\<close>

text \<open>
  \<^verbatim>\<open>String.prototype.trim\<close> removes white space and line terminators at both ends; below
  256 these are the code units 9 to 13, 32 and 160.
\<close>

definition isWhiteSpace :: "char \<Rightarrow> bool" where
  "isWhiteSpace c =
     (c \<in> set [CHR 0x09, CHR 0x0A, CHR 0x0B, CHR 0x0C, CHR 0x0D, CHR '' '', CHR 0xA0])"

definition trim :: "string \<Rightarrow> string" where
  "trim s = rev (dropWhile isWhiteSpace (rev (dropWhile isWhiteSpace s)))"

text \<open>
  \<^verbatim>\<open>String.prototype.toLowerCase\<close> on the code units below 256: the letters A to Z, and
  the upper-case letters from 0xC0 to 0xDE, move up by 32.
\<close>

definition toLowerChar :: "char \<Rightarrow> char" where
  "toLowerChar c =
     (if (CHR ''A'' \<le> c \<and> c \<le> CHR ''Z'') \<or> (CHR 0xC0 \<le> c \<and> c \<le> CHR 0xDE \<and> c \<noteq> CHR 0xD7)
      then char_of (of_char c + (32::nat)) else c)"

definition toLowerCase :: "string \<Rightarrow> string" where
  "toLowerCase s = map toLowerChar s"

text \<open>The test \<^verbatim>\<open>/^[a-z0-9-]+$/.test(s)\<close>: one character at least, all of the class.\<close>

definition idChar :: "char \<Rightarrow> bool" where
  "idChar c = (c \<in> set ''abcdefghijklmnopqrstuvwxyz0123456789-'')"

definition idRegex :: "string \<Rightarrow> bool" where
  "idRegex s = (s \<noteq> [] \<and> list_all idChar s)"

text \<open>The truth value of a field, and the field as a string once it is known to be truthy.\<close>

definition truthy :: "string option \<Rightarrow> bool" where
  "truthy v = (case v of None \<Rightarrow> False | Some s \<Rightarrow> s \<noteq> [])"

definition str :: "string option \<Rightarrow> string" where
  "str v = (case v of None \<Rightarrow> [] | Some s \<Rightarrow> s)"

text \<open>\<^verbatim>\<open>v ? v.trim() : ''\<close>\<close>

definition trimOrEmpty :: "string option \<Rightarrow> string" where
  "trimOrEmpty v = (case v of None \<Rightarrow> [] | Some s \<Rightarrow> if s = [] then [] else trim s)"

subsection \<open>Data\<close>

text \<open>
  The value of the field \<^verbatim>\<open>isUnilateral\<close> of a submitted node: a string or absent, which
  is all that the urlencoded parser of the handler delivers. The boolean is there for
  the comparison \<^verbatim>\<open>=== 'true'\<close> to be total on values; no request carries one.
\<close>

datatype jsval = JUndefined | JString string | JBool bool

text \<open>A submitted node, as the form parser delivers it.\<close>

datatype raw = Raw (raw_id: "string option") (raw_name: "string option")
  (raw_imageUrl: "string option") (raw_isUnilateral: jsval)
  (raw_subVariations: "raw list option") (raw_executionTypes: "raw list option")

text \<open>A node of the stored document (\<^verbatim>\<open>processedItem\<close>); an absent field is \<open>None\<close>.\<close>

datatype node = Node (node_id: string) (node_name: string)
  (node_imageUrl: "string option") (node_isUnilateral: bool)
  (node_subVariations: "node list option") (node_executionTypes: "node list option")

text \<open>
  The stored document: an array of groups \<^verbatim>\<open>{group, items}\<close>, each item an exercise
  \<^verbatim>\<open>{id, name, variations}\<close>. The store holds the document and its version token.
\<close>

record exercise =
  ex_id :: string
  ex_name :: string
  ex_variations :: "node list option"

record exgroup =
  grp_group :: string
  grp_items :: "exercise list"

type_synonym document = "exgroup list"

record store =
  content :: document
  sha :: string

text \<open>The body of a request, as the handler destructures it.\<close>

record request =
  editMode :: "string option"
  originalBaseId :: "string option"
  fileSha :: "string option"
  group :: "string option"
  baseId :: "string option"
  baseName :: "string option"
  variations :: "raw list option"

text \<open>
  The level names that the source passes as strings (\<^verbatim>\<open>'Variacion'\<close>, \<^verbatim>\<open>'Sub-Variacion'\<close>
  and \<^verbatim>\<open>'Tipo Ejecucion'\<close>, written there with their accents), and the three errors that
  \<^verbatim>\<open>processVariations\<close> throws, each with the level of its message; the duplicate's
  message also names the identifier.
\<close>

datatype level = Variacion | SubVariacion | TipoEjecucion

datatype verror = InvalidId level | EmptyName level | DuplicateId level string

text \<open>
  What the outer \<^verbatim>\<open>catch\<close> answers with 500: the error thrown when the original exercise is
  not found, or a write that the store rejects. The two success messages: updated, added.
\<close>

datatype failure = NotFound string | CommitRejected

datatype saved = Actualizado | Anadido

text \<open>
  The responses: 400 of the first check, 409 of the token check, 400 for a taken base
  identifier, 400 for an error thrown by \<^verbatim>\<open>processVariations\<close>, 500, and the success page.
\<close>

datatype response =
    BadRequest400
  | Conflict409
  | DuplicateBaseId400 string
  | ValidationError400 verror
  | ServerError500 failure
  | Success200 saved

subsection \<open>The identifiers already taken\<close>

text \<open>
  The nested \<^verbatim>\<open>forEach\<close> loops that fill the set \<^verbatim>\<open>allIds\<close> from the current
  document; \<^verbatim>\<open>x?.forEach\<close> does nothing when the field is absent.
\<close>

definition addExecutionTypes :: "node \<Rightarrow> string set \<Rightarrow> string set" where
  "addExecutionTypes sv acc =
     (case node_executionTypes sv of
        None \<Rightarrow> acc
      | Some ets \<Rightarrow> fold (\<lambda>et a. insert (node_id et) a) ets acc)"

definition addSubVariations :: "node \<Rightarrow> string set \<Rightarrow> string set" where
  "addSubVariations v acc =
     (case node_subVariations v of
        None \<Rightarrow> acc
      | Some svs \<Rightarrow> fold (\<lambda>sv a. addExecutionTypes sv (insert (node_id sv) a)) svs acc)"

definition addItem :: "exercise \<Rightarrow> string set \<Rightarrow> string set" where
  "addItem item acc =
     (case ex_variations item of
        None \<Rightarrow> insert (ex_id item) acc
      | Some vs \<Rightarrow>
          fold (\<lambda>v a. addSubVariations v (insert (node_id v) a)) vs (insert (ex_id item) acc))"

definition collectAllIds :: "string option \<Rightarrow> string option \<Rightarrow> document \<Rightarrow> string set" where
  "collectAllIds em orig doc =
     fold (\<lambda>g acc.
        fold (\<lambda>item a.
          if \<not> truthy em \<or> Some (ex_id item) \<noteq> orig then addItem item a else a)
          (grp_items g) acc)
       doc {}"

subsection \<open>processVariations\<close>

text \<open>
  \<open>processVariations\<close> is the function of the source; \<open>mapItems\<close> is the callback of its
  \<^verbatim>\<open>levelData.map\<close>, run over the items from left to right with the two sets threaded
  through (\<^verbatim>\<open>idsInLevel\<close>, local to one call, and \<^verbatim>\<open>allIds\<close>, shared). A \<^verbatim>\<open>throw\<close> is
  \<open>Inl\<close>; the result carries the set \<^verbatim>\<open>allIds\<close> as the call leaves it. The parameter
  \<^verbatim>\<open>parentId\<close> of the source is never read and is left out, and so is the final
  \<^verbatim>\<open>filter(Boolean)\<close>, which keeps every processed item (an object is truthy).
\<close>

function processVariations ::
    "raw list option \<Rightarrow> level \<Rightarrow> string set \<Rightarrow> verror + node list \<times> string set"
  and mapItems ::
    "raw list \<Rightarrow> level \<Rightarrow> string set \<Rightarrow> string set \<Rightarrow> verror + node list \<times> string set"
where
  "processVariations None levelName allIds = Inr ([], allIds)"
| "processVariations (Some levelData) levelName allIds = mapItems levelData levelName {} allIds"
| "mapItems [] levelName idsInLevel allIds = Inr ([], allIds)"
| "mapItems (Raw rid rname rimg runi rsubs rets # rest) levelName idsInLevel allIds =
    (let itemId = trimOrEmpty rid; itemName = trimOrEmpty rname in
     if itemId = [] \<or> \<not> idRegex itemId then Inl (InvalidId levelName)
     else if itemName = [] then Inl (EmptyName levelName)
     else if itemId \<in> allIds \<or> itemId \<in> idsInLevel then Inl (DuplicateId levelName itemId)
     else
       (case (if levelName = Variacion \<and> rsubs \<noteq> None
              then processVariations rsubs SubVariacion (insert itemId allIds)
              else Inr ([], insert itemId allIds)) of
          Inl e \<Rightarrow> Inl e
        | Inr (subs, allIds1) \<Rightarrow>
          (case (if levelName = SubVariacion \<and> rets \<noteq> None
                 then processVariations rets TipoEjecucion allIds1
                 else Inr ([], allIds1)) of
             Inl e \<Rightarrow> Inl e
           | Inr (ets, allIds2) \<Rightarrow>
             (case mapItems rest levelName (insert itemId idsInLevel) allIds2 of
                Inl e \<Rightarrow> Inl e
              | Inr (out, allIds3) \<Rightarrow>
                  Inr (Node itemId itemName
                         (case rimg of None \<Rightarrow> None | Some u \<Rightarrow> if u = [] then None else Some u)
                         (runi = JString ''true'')
                         (if subs = [] then None else Some subs)
                         (if ets = [] then None else Some ets) # out, allIds3)))))"
  by pat_completeness auto
termination
  by (relation "measure (\<lambda>x. case x of
          Inl (ld, _, _) \<Rightarrow> size_option (size_list size) ld
        | Inr (xs, _, _, _) \<Rightarrow> size_list size xs)") auto

subsection \<open>Sorting\<close>

text \<open>
  \<^verbatim>\<open>Array.prototype.sort\<close> with a comparator: the sort is stable, and for a consistent
  comparator the result is the one of the stable insertion sort. The comparator of the
  source is \<^verbatim>\<open>String.prototype.localeCompare\<close>, a function of the platform; it is a
  parameter \<open>lc\<close> of everything that sorts. Only the statement that the result is sorted
  assumes the comparator consistent (total and transitive); the others use that sorting
  permutes.
\<close>

fun insortBy :: "('a \<Rightarrow> 'a \<Rightarrow> int) \<Rightarrow> 'a \<Rightarrow> 'a list \<Rightarrow> 'a list" where
  "insortBy cmp x [] = [x]"
| "insortBy cmp x (y # ys) = (if cmp x y \<le> 0 then x # y # ys else y # insortBy cmp x ys)"

definition arraySort :: "('a \<Rightarrow> 'a \<Rightarrow> int) \<Rightarrow> 'a list \<Rightarrow> 'a list" where
  "arraySort cmp xs = foldr (insortBy cmp) xs []"

definition consistent :: "(string \<Rightarrow> string \<Rightarrow> int) \<Rightarrow> bool" where
  "consistent lc =
     ((\<forall>a b. lc a b \<le> 0 \<or> lc b a \<le> 0) \<and>
      (\<forall>a b c. lc a b \<le> 0 \<and> lc b c \<le> 0 \<longrightarrow> lc a c \<le> 0))"

text \<open>An example of a consistent comparator: the lower-cased strings, code unit by code unit.\<close>

definition exampleCompare :: "string \<Rightarrow> string \<Rightarrow> int" where
  "exampleCompare a b =
     (if toLowerCase a < toLowerCase b then - 1
      else if toLowerCase a = toLowerCase b then 0 else 1)"

subsection \<open>The two intents\<close>

fun findIndex :: "('a \<Rightarrow> bool) \<Rightarrow> 'a list \<Rightarrow> nat option" where
  "findIndex P [] = None"
| "findIndex P (x # xs) =
     (if P x then Some 0 else map_option Suc (findIndex P xs))"

text \<open>
  The loop of the edit branch: the first group that holds an item with the original
  identifier has that item replaced, and the loop stops; \<open>None\<close> when no group does
  (\<^verbatim>\<open>foundAndUpdated\<close> stays false).
\<close>

fun updateLoop :: "string \<Rightarrow> exercise \<Rightarrow> document \<Rightarrow> document option" where
  "updateLoop orig exerciseObject [] = None"
| "updateLoop orig exerciseObject (g # gs) =
     (case findIndex (\<lambda>item. ex_id item = orig) (grp_items g) of
        Some itemIndex \<Rightarrow>
          Some (g\<lparr>grp_items := (grp_items g)[itemIndex := exerciseObject]\<rparr> # gs)
      | None \<Rightarrow> map_option ((#) g) (updateLoop orig exerciseObject gs))"

text \<open>The branch that adds: the group is found by its lower-cased name, or pushed.\<close>

definition addNew :: "string \<Rightarrow> exercise \<Rightarrow> document \<Rightarrow> document" where
  "addNew grp exerciseObject doc =
     (case findIndex (\<lambda>g. toLowerCase (grp_group g) = toLowerCase grp) doc of
        None \<Rightarrow> doc @ [\<lparr>grp_group = grp, grp_items = [] @ [exerciseObject]\<rparr>]
      | Some groupIndex \<Rightarrow>
          doc[groupIndex := (doc ! groupIndex)
                \<lparr>grp_items := grp_items (doc ! groupIndex) @ [exerciseObject]\<rparr>])"

text \<open>\<^verbatim>\<open>exerciseObject\<close>: no field \<^verbatim>\<open>variations\<close> when there is none, else sorted by name.\<close>

definition mkExerciseObject ::
    "(string \<Rightarrow> string \<Rightarrow> int) \<Rightarrow> string \<Rightarrow> string \<Rightarrow> node list \<Rightarrow> exercise" where
  "mkExerciseObject lc bid bname processedVariations =
     \<lparr>ex_id = bid, ex_name = bname,
      ex_variations =
        (if processedVariations = [] then None
         else Some (arraySort (\<lambda>a b. lc (node_name a) (node_name b)) processedVariations))\<rparr>"

text \<open>The groups sorted by name, then the items of every group sorted by name.\<close>

definition sortAll :: "(string \<Rightarrow> string \<Rightarrow> int) \<Rightarrow> document \<Rightarrow> document" where
  "sortAll lc doc =
     map (\<lambda>g. g\<lparr>grp_items := arraySort (\<lambda>a b. lc (ex_name a) (ex_name b)) (grp_items g)\<rparr>)
       (arraySort (\<lambda>a b. lc (grp_group a) (grp_group b)) doc)"

subsection \<open>The store and the handler\<close>

text \<open>
  The hosted store is an external service, reached through its client library. Its
  contract for a write, as section 4.1 of the specification states it: the new content
  replaces the old one only when the presented token is the store's current one, and the
  store then reports a new token (\<open>newSha\<close>, chosen by the store).
\<close>

definition createOrUpdateFileContents ::
    "store \<Rightarrow> document \<Rightarrow> string \<Rightarrow> string \<Rightarrow> failure + store" where
  "createOrUpdateFileContents st doc expected newSha =
     (if sha st = expected then Inr \<lparr>content = doc, sha = newSha\<rparr> else Inl CommitRejected)"

text \<open>The first check of the handler, negated: the request goes on.\<close>

definition basicOk :: "request \<Rightarrow> bool" where
  "basicOk req =
     (\<not> (\<not> truthy (group req) \<or> \<not> truthy (baseId req) \<or> \<not> truthy (baseName req) \<or>
         \<not> idRegex (str (baseId req)) \<or> \<not> truthy (fileSha req)))"

text \<open>
  The handler of \<^verbatim>\<open>POST /save-exercise\<close>, from the first check to the response. It returns
  the response and the store afterwards. The read from the store is taken to succeed, and
  no other writer comes between the read and the write.
\<close>

definition save_exercise ::
    "(string \<Rightarrow> string \<Rightarrow> int) \<Rightarrow> string \<Rightarrow> request \<Rightarrow> store \<Rightarrow> response \<times> store" where
  "save_exercise lc newSha req st =
     (if \<not> basicOk req then (BadRequest400, st)
      else
        let currentExerciseData = content st; currentSha = sha st in
        if Some currentSha \<noteq> fileSha req then (Conflict409, st)
        else
          let allIds = collectAllIds (editMode req) (originalBaseId req) currentExerciseData in
          if str (baseId req) \<in> allIds then (DuplicateBaseId400 (str (baseId req)), st)
          else
            (case processVariations (variations req) Variacion allIds of
               Inl e \<Rightarrow> (ValidationError400 e, st)
             | Inr (processedVariations, allIds') \<Rightarrow>
                 let exerciseObject =
                       mkExerciseObject lc (str (baseId req)) (str (baseName req))
                         processedVariations
                 in
                 (case (if editMode req = Some ''true'' \<and> truthy (originalBaseId req)
                        then (case updateLoop (str (originalBaseId req)) exerciseObject
                                     currentExerciseData of
                                None \<Rightarrow> Inl (NotFound (str (originalBaseId req)))
                              | Some d \<Rightarrow> Inr (d, Actualizado))
                        else Inr (addNew (str (group req)) exerciseObject currentExerciseData,
                                  Anadido)) of
                    Inl err \<Rightarrow> (ServerError500 err, st)
                  | Inr (d, kind) \<Rightarrow>
                      (case createOrUpdateFileContents st (sortAll lc d) currentSha newSha of
                         Inl err \<Rightarrow> (ServerError500 err, st)
                       | Inr st' \<Rightarrow> (Success200 kind, st')))))"

section \<open>What the statements speak of\<close>

subsection \<open>Stored documents\<close>

text \<open>The top-level exercises of a document, group after group.\<close>

definition allItems :: "document \<Rightarrow> exercise list" where
  "allItems doc = concat (map grp_items doc)"

text \<open>
  The identifiers of a stored exercise at its four levels: its own, its variations', their
  sub-variations' and their execution types'.
\<close>

definition optList :: "'a list option \<Rightarrow> 'a list" where
  "optList v = (case v of None \<Rightarrow> [] | Some xs \<Rightarrow> xs)"

definition exerciseIds :: "exercise \<Rightarrow> string set" where
  "exerciseIds item =
     insert (ex_id item)
       (\<Union>v\<in>set (optList (ex_variations item)).
          insert (node_id v)
            (\<Union>sv\<in>set (optList (node_subVariations v)).
               insert (node_id sv) (node_id ` set (optList (node_executionTypes sv)))))"

subsection \<open>The submitted tree, read without the code\<close>

text \<open>
  The definitions of this subsection do not embed the source: they say, in the words of
  the specification, which nodes of a submission are validated and in which order, what
  the normalized tree is, and which error is the first one. The lemmas below prove that
  \<open>processVariations\<close> computes exactly this.

  The nodes that are validated, parents before children and siblings from left to right,
  each with its level. A variation's children are its \<^verbatim>\<open>subVariations\<close>, a
  sub-variation's children are its \<^verbatim>\<open>executionTypes\<close>, an execution type has none.
\<close>

function visited :: "raw list option \<Rightarrow> level \<Rightarrow> (level \<times> raw) list"
  and visitedItems :: "raw list \<Rightarrow> level \<Rightarrow> (level \<times> raw) list"
where
  "visited None l = []"
| "visited (Some xs) l = visitedItems xs l"
| "visitedItems [] l = []"
| "visitedItems (Raw rid rname rimg runi rsubs rets # rest) l =
     (l, Raw rid rname rimg runi rsubs rets) #
     (if l = Variacion then visited rsubs SubVariacion else []) @
     (if l = SubVariacion then visited rets TipoEjecucion else []) @
     visitedItems rest l"
  by pat_completeness auto
termination
  by (relation "measure (\<lambda>x. case x of
          Inl (ld, _) \<Rightarrow> size_option (size_list size) ld
        | Inr (xs, _) \<Rightarrow> size_list size xs)") auto

definition nonEmpty :: "'a list \<Rightarrow> 'a list option" where
  "nonEmpty xs = (if xs = [] then None else Some xs)"

text \<open>
  The normalized tree: identifier and name trimmed, an empty \<^verbatim>\<open>imageUrl\<close> dropped,
  \<^verbatim>\<open>isUnilateral\<close> true only for the string \<^verbatim>\<open>'true'\<close>, the children of the next
  level, and no children field when there is no child.
\<close>

function expected :: "raw list option \<Rightarrow> level \<Rightarrow> node list"
  and expectedItems :: "raw list \<Rightarrow> level \<Rightarrow> node list"
where
  "expected None l = []"
| "expected (Some xs) l = expectedItems xs l"
| "expectedItems [] l = []"
| "expectedItems (Raw rid rname rimg runi rsubs rets # rest) l =
     Node (trim (str rid)) (trim (str rname))
       (if truthy rimg then rimg else None)
       (runi = JString ''true'')
       (if l = Variacion then nonEmpty (expected rsubs SubVariacion) else None)
       (if l = SubVariacion then nonEmpty (expected rets TipoEjecucion) else None) #
     expectedItems rest l"
  by pat_completeness auto
termination
  by (relation "measure (\<lambda>x. case x of
          Inl (ld, _) \<Rightarrow> size_option (size_list size) ld
        | Inr (xs, _) \<Rightarrow> size_list size xs)") auto

definition submittedId :: "raw \<Rightarrow> string" where
  "submittedId x = trim (str (raw_id x))"

definition submittedName :: "raw \<Rightarrow> string" where
  "submittedName x = trim (str (raw_name x))"

definition submittedIds :: "(level \<times> raw) list \<Rightarrow> string list" where
  "submittedIds vis = map (\<lambda>p. submittedId (snd p)) vis"

text \<open>
  The first error of a sequence of nodes, given the identifiers already taken: each node
  is checked for the syntax of its identifier, then for its name, then for a duplicate,
  and its identifier is taken from then on.
\<close>

fun scan :: "(level \<times> raw) list \<Rightarrow> string set \<Rightarrow> verror option" where
  "scan [] taken = None"
| "scan ((l, x) # rest) taken =
     (if \<not> idRegex (submittedId x) then Some (InvalidId l)
      else if submittedName x = [] then Some (EmptyName l)
      else if submittedId x \<in> taken then Some (DuplicateId l (submittedId x))
      else scan rest (insert (submittedId x) taken))"

text \<open>The result of a normalization, from the first error or its absence.\<close>

definition outcome ::
    "(level \<times> raw) list \<Rightarrow> node list \<Rightarrow> string set \<Rightarrow> verror + node list \<times> string set" where
  "outcome vis out taken =
     (case scan vis taken of
        Some e \<Rightarrow> Inl e
      | None \<Rightarrow> Inr (out, taken \<union> set (submittedIds vis)))"

definition validNode :: "raw \<Rightarrow> bool" where
  "validNode x = (idRegex (submittedId x) \<and> submittedName x \<noteq> [])"

text \<open>
  A sequence of nodes is acceptable when every node has an identifier of the syntax and
  a name that is not empty, both after trimming, and the identifiers are pairwise
  distinct and not taken.
\<close>

definition acceptable :: "(level \<times> raw) list \<Rightarrow> string set \<Rightarrow> bool" where
  "acceptable vis taken =
     (list_all (\<lambda>p. validNode (snd p)) vis \<and> distinct (submittedIds vis) \<and>
      set (submittedIds vis) \<inter> taken = {})"

subsection \<open>A normalized tree read back\<close>

text \<open>
  A stored node as it comes back to the handler: serialized into the document, read from
  it, and submitted again through the urlencoded form, the only way into
  \<^verbatim>\<open>processVariations\<close>. The strings are as they are, the boolean \<^verbatim>\<open>isUnilateral\<close> is
  the string \<^verbatim>\<open>'true'\<close> or \<^verbatim>\<open>'false'\<close>, and absent fields are absent.
\<close>

primrec roundtrip :: "node \<Rightarrow> raw" where
  "roundtrip (Node i n img u subs ets) =
     Raw (Some i) (Some n) img (JString (if u then ''true'' else ''false''))
       (map_option (map roundtrip) subs) (map_option (map roundtrip) ets)"

text \<open>
  What holds when a normalized tree \<open>out\<close>, read back, is normalized again: the same
  identifiers are submitted, every node is valid, and the result is \<open>out\<close>.
\<close>

definition renormalizes :: "(level \<times> raw) list \<Rightarrow> node list \<Rightarrow> raw list \<Rightarrow> level \<Rightarrow> bool" where
  "renormalizes vis out again l =
     (submittedIds (visitedItems again l) = submittedIds vis \<and>
      list_all (\<lambda>p. validNode (snd p)) (visitedItems again l) \<and>
      expectedItems again l = out)"

subsection \<open>Example requests and stores\<close>

definition emptyStore :: store where
  "emptyStore = \<lparr>content = [], sha = ''t1''\<rparr>"

definition twoGroups :: store where
  "twoGroups = \<lparr>content =
     [\<lparr>grp_group = ''Legs'', grp_items = [\<lparr>ex_id = ''squat'', ex_name = ''Squat'', ex_variations = None\<rparr>,
        \<lparr>ex_id = ''lunge'', ex_name = ''lunge'', ex_variations = None\<rparr>]\<rparr>,
      \<lparr>grp_group = ''back'', grp_items = [\<lparr>ex_id = ''row'', ex_name = ''Row'', ex_variations = None\<rparr>]\<rparr>],
     sha = ''t1''\<rparr>"

definition twoGroupsAdded :: store where
  "twoGroupsAdded = \<lparr>content =
     [\<lparr>grp_group = ''back'',
       grp_items = [\<lparr>ex_id = ''row'', ex_name = ''Row'', ex_variations = None\<rparr>]\<rparr>,
      \<lparr>grp_group = ''Legs'',
       grp_items = [\<lparr>ex_id = ''leg-press'', ex_name = ''Leg Press'', ex_variations = None\<rparr>,
                    \<lparr>ex_id = ''lunge'', ex_name = ''lunge'', ex_variations = None\<rparr>,
                    \<lparr>ex_id = ''squat'', ex_name = ''Squat'', ex_variations = None\<rparr>]\<rparr>],
     sha = ''t2''\<rparr>"

definition twoGroupsRenamed :: store where
  "twoGroupsRenamed = \<lparr>content =
     [\<lparr>grp_group = ''back'',
       grp_items = [\<lparr>ex_id = ''row'', ex_name = ''Row'', ex_variations = None\<rparr>]\<rparr>,
      \<lparr>grp_group = ''Legs'',
       grp_items = [\<lparr>ex_id = ''back-squat'', ex_name = ''Back Squat'', ex_variations = None\<rparr>,
                    \<lparr>ex_id = ''lunge'', ex_name = ''lunge'', ex_variations = None\<rparr>]\<rparr>],
     sha = ''t2''\<rparr>"

definition twoSquats :: store where
  "twoSquats = \<lparr>content =
     [\<lparr>grp_group = ''Back'',
       grp_items = [\<lparr>ex_id = ''squat'', ex_name = ''Squat'', ex_variations = None\<rparr>]\<rparr>,
      \<lparr>grp_group = ''Legs'',
       grp_items = [\<lparr>ex_id = ''squat'', ex_name = ''Squat'', ex_variations = None\<rparr>]\<rparr>],
     sha = ''t1''\<rparr>"

definition squatDoc :: store where
  "squatDoc = \<lparr>content =
     [\<lparr>grp_group = ''Legs'',
       grp_items = [\<lparr>ex_id = ''squat'', ex_name = ''Squat'',
                     ex_variations = Some [Node ''front-squat'' ''Front Squat'' None False None None]\<rparr>,
                    \<lparr>ex_id = ''lunge'', ex_name = ''Lunge'',
                     ex_variations = Some [Node ''walking-lunge'' ''Walking Lunge'' None False None None]\<rparr>]\<rparr>],
     sha = ''t1''\<rparr>"

definition benchPressReq :: request where
  "benchPressReq = \<lparr>editMode = None, originalBaseId = None, fileSha = Some ''t1'',
     group = Some ''Chest'', baseId = Some ''bench-press'', baseName = Some ''Bench Press'',
     variations = None\<rparr>"

definition chestVariationReq :: request where
  "chestVariationReq = \<lparr>editMode = None, originalBaseId = None, fileSha = Some ''t1'',
     group = Some ''Chest'', baseId = Some ''bench-press'', baseName = Some ''Bench Press'',
     variations = Some [Raw (Some ''incline'') (Some ''Incline'') None JUndefined None None]\<rparr>"

definition legPressReq :: request where
  "legPressReq = \<lparr>editMode = None, originalBaseId = None, fileSha = Some ''t1'',
     group = Some ''legs'', baseId = Some ''leg-press'', baseName = Some ''Leg Press'',
     variations = None\<rparr>"

definition staleReq :: request where
  "staleReq = \<lparr>editMode = None, originalBaseId = None, fileSha = Some ''t0'',
     group = Some ''Chest'', baseId = Some ''bench-press'', baseName = Some ''Bench Press'',
     variations = None\<rparr>"

definition staleBadIdReq :: request where
  "staleBadIdReq = \<lparr>editMode = None, originalBaseId = None, fileSha = Some ''t0'',
     group = Some ''Chest'', baseId = Some ''Bad Id'', baseName = Some ''Bench Press'',
     variations = None\<rparr>"

definition inclineReq :: request where
  "inclineReq = \<lparr>editMode = None, originalBaseId = None, fileSha = Some ''t1'',
     group = Some ''Chest'', baseId = Some ''bench-press'', baseName = Some ''Bench Press'',
     variations = Some [Raw (Some ''Incline!'') (Some ''Incline'') None JUndefined None None]\<rparr>"

definition blankNameReq :: request where
  "blankNameReq = \<lparr>editMode = None, originalBaseId = None, fileSha = Some ''t1'',
     group = Some ''Chest'', baseId = Some ''bench-press'', baseName = Some ''  '',
     variations = None\<rparr>"

definition paddedReq :: request where
  "paddedReq = \<lparr>editMode = None, originalBaseId = None, fileSha = Some ''t1'',
     group = Some ''Chest'', baseId = Some ''bench-press'', baseName = Some ''Bench Press'',
     variations = Some [Raw (Some '' incline '') (Some '' Incline  '') None JUndefined None None,
                        Raw (Some ''decline'') (Some ''   '') None JUndefined None None]\<rparr>"

definition upperIdReq :: request where
  "upperIdReq = \<lparr>editMode = None, originalBaseId = None, fileSha = Some ''t1'',
     group = Some ''Chest'', baseId = Some ''Bench_Press'', baseName = Some ''Bench Press'',
     variations = None\<rparr>"

definition editNoOriginalReq :: request where
  "editNoOriginalReq = \<lparr>editMode = Some ''true'', originalBaseId = Some [], fileSha = Some ''t1'',
     group = Some ''legs'', baseId = Some ''leg-press'', baseName = Some ''Leg Press'',
     variations = None\<rparr>"

definition renameSquatReq :: request where
  "renameSquatReq = \<lparr>editMode = Some ''true'', originalBaseId = Some ''squat'', fileSha = Some ''t1'',
     group = Some ''Legs'', baseId = Some ''back-squat'', baseName = Some ''Back Squat'',
     variations = None\<rparr>"

definition editMissingReq :: request where
  "editMissingReq = \<lparr>editMode = Some ''true'', originalBaseId = Some ''deadlift'', fileSha = Some ''t1'',
     group = Some ''Legs'', baseId = Some ''back-squat'', baseName = Some ''Back Squat'',
     variations = None\<rparr>"

definition editSquatReq :: request where
  "editSquatReq = \<lparr>editMode = Some ''true'', originalBaseId = Some ''squat'', fileSha = Some ''t1'',
     group = Some ''Legs'', baseId = Some ''squat'', baseName = Some ''Back Squat'',
     variations = Some [Raw (Some ''front-squat'') (Some ''Front Squat'') None JUndefined None None]\<rparr>"

definition editSquatTakenReq :: request where
  "editSquatTakenReq = \<lparr>editMode = Some ''true'', originalBaseId = Some ''squat'', fileSha = Some ''t1'',
     group = Some ''Legs'', baseId = Some ''squat'', baseName = Some ''Back Squat'',
     variations = Some [Raw (Some ''walking-lunge'') (Some ''Walking'') None JUndefined None None]\<rparr>"

section \<open>Lemmas\<close>

subsection \<open>Strings\<close>

lemmas request_defs = basicOk_def truthy_def str_def idRegex_def idChar_def

lemma trimOrEmpty_eq: "trimOrEmpty v = trim (str v)"
  by (simp add: trimOrEmpty_def str_def trim_def split: option.splits)

lemma submittedId_alt: "submittedId x = trimOrEmpty (raw_id x)"
  by (simp add: submittedId_def trimOrEmpty_eq)

lemma submittedName_alt: "submittedName x = trimOrEmpty (raw_name x)"
  by (simp add: submittedName_def trimOrEmpty_eq)

lemma idChar_not_ws: "idChar c \<Longrightarrow> \<not> isWhiteSpace c"
  by (auto simp: idChar_def isWhiteSpace_def)

lemma trim_noop:
  assumes "s \<noteq> []" and "\<not> isWhiteSpace (hd s)" and "\<not> isWhiteSpace (last s)"
  shows "trim s = s"
proof -
  have "dropWhile isWhiteSpace s = s" using assms(1,2) by (cases s) auto
  moreover have "dropWhile isWhiteSpace (rev s) = rev s"
    using assms(1,3) by (cases "rev s") (auto simp: last_rev [symmetric] hd_rev)
  ultimately show ?thesis by (simp add: trim_def)
qed

lemma trim_idRegex: "idRegex s \<Longrightarrow> trim s = s"
proof (rule trim_noop)
  assume a: "idRegex s"
  then show "s \<noteq> []" by (simp add: idRegex_def)
  with a have "idChar (hd s)" "idChar (last s)"
    by (auto simp: idRegex_def list_all_iff)
  then show "\<not> isWhiteSpace (hd s)" "\<not> isWhiteSpace (last s)"
    by (auto dest: idChar_not_ws)
qed

lemma trim_trim: "trim (trim s) = trim s"
proof (cases "trim s = []")
  case True
  moreover have "trim [] = []" by (simp add: trim_def)
  ultimately show ?thesis by simp
next
  case False
  let ?t = "dropWhile isWhiteSpace s"
  let ?r = "dropWhile isWhiteSpace (rev ?t)"
  have r: "trim s = rev ?r" by (simp add: trim_def)
  with False have rne: "?r \<noteq> []" by simp
  then have "\<not> isWhiteSpace (hd ?r)" by (rule hd_dropWhile)
  then have l: "\<not> isWhiteSpace (last (trim s))" using rne by (simp add: r last_rev)
  have tne: "?t \<noteq> []" using rne by (cases ?t) simp_all
  then have ht: "\<not> isWhiteSpace (hd ?t)" by (rule hd_dropWhile)
  obtain k where "?r = drop k (rev ?t)"
    by (metis dropWhile_eq_drop)
  then have "rev ?r = take (length ?t - k) ?t" by (simp add: rev_drop)
  with rne have "hd (rev ?r) = hd ?t"
    by (cases ?t; cases "length ?t - k") auto
  with ht have h: "\<not> isWhiteSpace (hd (trim s))" by (simp add: r)
  from False h l show ?thesis by (rule trim_noop)
qed

lemma forbidden_not_idChar:
  "list_all (\<lambda>c. \<not> idChar c) ''ABCDEFGHIJKLMNOPQRSTUVWXYZ_ ''"
  by (simp add: idChar_def)

lemma forbidden_not_idRegex:
  "\<not> idChar c \<Longrightarrow> c \<in> set s \<Longrightarrow> \<not> idRegex s"
  by (auto simp: idRegex_def list_all_iff)

subsection \<open>Sorting\<close>

lemma mset_insortBy: "mset (insortBy cmp x xs) = add_mset x (mset xs)"
  by (induction xs) auto

lemma mset_arraySort: "mset (arraySort cmp xs) = mset xs"
  by (induction xs) (auto simp: arraySort_def mset_insortBy)

lemma set_arraySort: "set (arraySort cmp xs) = set xs"
  using mset_arraySort [of cmp xs] by (metis set_mset_mset)

lemma set_insortBy: "set (insortBy cmp x xs) = insert x (set xs)"
  using mset_insortBy [of cmp x xs] by (metis set_mset_add_mset_insert set_mset_mset)

lemma sorted_insortBy:
  assumes tot: "\<And>a b. cmp a b \<le> 0 \<or> cmp b a \<le> 0"
    and tr: "\<And>a b c. cmp a b \<le> 0 \<Longrightarrow> cmp b c \<le> 0 \<Longrightarrow> cmp a c \<le> 0"
    and "sorted_wrt (\<lambda>a b. cmp a b \<le> 0) xs"
  shows "sorted_wrt (\<lambda>a b. cmp a b \<le> 0) (insortBy cmp x xs)"
  using assms(3)
proof (induction xs)
  case Nil
  then show ?case by simp
next
  case (Cons y ys)
  show ?case
  proof (cases "cmp x y \<le> 0")
    case True
    with Cons.prems tr show ?thesis by auto
  next
    case False
    with tot have "cmp y x \<le> 0" by blast
    with False Cons show ?thesis by (auto simp: set_insortBy)
  qed
qed

lemma sorted_arraySort:
  assumes tot: "\<And>a b. cmp a b \<le> 0 \<or> cmp b a \<le> 0"
    and tr: "\<And>a b c. cmp a b \<le> 0 \<Longrightarrow> cmp b c \<le> 0 \<Longrightarrow> cmp a c \<le> 0"
  shows "sorted_wrt (\<lambda>a b. cmp a b \<le> 0) (arraySort cmp xs)"
proof (induction xs)
  case Nil
  then show ?case by (simp add: arraySort_def)
next
  case (Cons x xs)
  have "arraySort cmp (x # xs) = insortBy cmp x (arraySort cmp xs)"
    by (simp add: arraySort_def)
  with Cons sorted_insortBy [OF tot tr] show ?case by simp
qed

lemma consistent_exampleCompare: "consistent exampleCompare"
  unfolding consistent_def exampleCompare_def
  by (auto split: if_splits)

lemma sortAll_groups_sorted:
  assumes "consistent lc"
  shows "sorted_wrt (\<lambda>a b. lc (grp_group a) (grp_group b) \<le> 0) (sortAll lc doc)"
proof -
  let ?cmp = "\<lambda>a b. lc (grp_group a) (grp_group b)"
  have tot: "\<And>a b. ?cmp a b \<le> 0 \<or> ?cmp b a \<le> 0"
    using assms unfolding consistent_def by blast
  have tr: "\<And>a b c. ?cmp a b \<le> 0 \<Longrightarrow> ?cmp b c \<le> 0 \<Longrightarrow> ?cmp a c \<le> 0"
    using assms unfolding consistent_def by blast
  have "sorted_wrt (\<lambda>a b. ?cmp a b \<le> 0) (arraySort ?cmp doc)"
    by (rule sorted_arraySort [of ?cmp, OF tot tr])
  then show ?thesis
    by (simp add: sortAll_def sorted_wrt_map)
qed

lemma sortAll_items_sorted:
  assumes "consistent lc" and "g \<in> set (sortAll lc doc)"
  shows "sorted_wrt (\<lambda>a b. lc (ex_name a) (ex_name b) \<le> 0) (grp_items g)"
proof -
  let ?cmp = "\<lambda>a b. lc (ex_name a) (ex_name b)"
  have tot: "\<And>a b. ?cmp a b \<le> 0 \<or> ?cmp b a \<le> 0"
    using assms(1) unfolding consistent_def by blast
  have tr: "\<And>a b c. ?cmp a b \<le> 0 \<Longrightarrow> ?cmp b c \<le> 0 \<Longrightarrow> ?cmp a c \<le> 0"
    using assms(1) unfolding consistent_def by blast
  from assms(2) obtain g0 where "g = g0\<lparr>grp_items := arraySort ?cmp (grp_items g0)\<rparr>"
    by (auto simp: sortAll_def)
  then show ?thesis
    using sorted_arraySort [of ?cmp, OF tot tr] by simp
qed

lemma mset_concat_map: "mset (concat (map f xs)) = (\<Sum>x\<in>#mset xs. mset (f x))"
  by (induction xs) auto

lemma mset_allItems_sortAll: "mset (allItems (sortAll lc d)) = mset (allItems d)"
proof -
  let ?f = "\<lambda>g. g\<lparr>grp_items := arraySort (\<lambda>a b. lc (ex_name a) (ex_name b)) (grp_items g)\<rparr>"
  let ?s = "arraySort (\<lambda>a b. lc (grp_group a) (grp_group b)) d"
  have "mset (allItems (sortAll lc d)) = (\<Sum>g\<in>#mset ?s. mset (grp_items (?f g)))"
    by (simp add: allItems_def sortAll_def mset_concat_map [symmetric] comp_def)
  also have "\<dots> = (\<Sum>g\<in>#mset d. mset (grp_items g))"
    by (simp add: mset_arraySort)
  finally show ?thesis by (simp add: allItems_def mset_concat_map)
qed

lemma sortAll_has_group:
  assumes "g \<in> set d" and "x \<in> set (grp_items g)"
  shows "\<exists>g'\<in>set (sortAll lc d). grp_group g' = grp_group g \<and> x \<in> set (grp_items g')"
  using assms
  by (auto simp: sortAll_def set_arraySort
       intro!: bexI [where x = g])

lemma mset_single_list: "mset xs = {#x#} \<Longrightarrow> xs = [x]"
  by (cases xs) auto

lemma filter_sortAll_new_group:
  assumes "\<forall>g\<in>set doc. \<not> P (grp_group g)" and "P grp"
  shows "filter (\<lambda>g. P (grp_group g)) (sortAll lc (doc @ [\<lparr>grp_group = grp, grp_items = [ex]\<rparr>])) =
         [\<lparr>grp_group = grp, grp_items = [ex]\<rparr>]"
proof -
  let ?new = "\<lparr>grp_group = grp, grp_items = [ex]\<rparr>"
  let ?f = "\<lambda>g. g\<lparr>grp_items := arraySort (\<lambda>a b. lc (ex_name a) (ex_name b)) (grp_items g)\<rparr>"
  let ?s = "arraySort (\<lambda>a b. lc (grp_group a) (grp_group b)) (doc @ [?new])"
  have "mset (filter (\<lambda>g. P (grp_group g)) ?s) = filter_mset (\<lambda>g. P (grp_group g)) (mset (doc @ [?new]))"
    by (simp add: mset_arraySort)
  also have "\<dots> = {#?new#}"
    using assms by (simp add: filter_mset_eq_conv) 
  finally have "filter (\<lambda>g. P (grp_group g)) ?s = [?new]"
    by (rule mset_single_list)
  moreover have "filter (\<lambda>g. P (grp_group g)) (map ?f ?s) = map ?f (filter (\<lambda>g. P (grp_group g)) ?s)"
    by (simp add: filter_map comp_def)
  ultimately show ?thesis
    by (simp add: sortAll_def arraySort_def)
qed

subsection \<open>The two intents\<close>

lemma findIndex_None: "findIndex P xs = None \<longleftrightarrow> (\<forall>x\<in>set xs. \<not> P x)"
  by (induction xs) auto

lemma findIndex_Some:
  "findIndex P xs = Some i \<Longrightarrow> i < length xs \<and> P (xs ! i)"
  by (induction xs arbitrary: i) (auto split: if_splits)

lemma allItems_Nil: "allItems [] = []"
  by (simp add: allItems_def)

lemma allItems_Cons: "allItems (g # gs) = grp_items g @ allItems gs"
  by (simp add: allItems_def)

lemma allItems_append: "allItems (xs @ ys) = allItems xs @ allItems ys"
  by (simp add: allItems_def)

lemma allItems_nth:
  assumes "i < length doc"
  shows "allItems doc =
         allItems (take i doc) @ grp_items (doc ! i) @ allItems (drop (Suc i) doc)"
proof -
  have "allItems doc = allItems (take i doc @ doc ! i # drop (Suc i) doc)"
    using assms by (simp add: id_take_nth_drop [symmetric])
  then show ?thesis by (simp only: allItems_append allItems_Cons)
qed

lemma allItems_list_update:
  assumes "i < length doc"
  shows "allItems (doc[i := g]) =
         allItems (take i doc) @ grp_items g @ allItems (drop (Suc i) doc)"
  using assms by (simp add: upd_conv_take_nth_drop allItems_append allItems_Cons)

lemma mset_allItems_addNew:
  "mset (allItems (addNew grp ex doc)) = add_mset ex (mset (allItems doc))"
proof (cases "findIndex (\<lambda>g. toLowerCase (grp_group g) = toLowerCase grp) doc")
  case None
  then show ?thesis by (simp add: addNew_def allItems_append allItems_Cons allItems_Nil)
next
  case (Some i)
  then have i: "i < length doc" using findIndex_Some by fastforce
  have "addNew grp ex doc = doc[i := (doc ! i)\<lparr>grp_items := grp_items (doc ! i) @ [ex]\<rparr>]"
    using Some by (simp add: addNew_def)
  then have "mset (allItems (addNew grp ex doc)) =
      mset (allItems (take i doc) @ (grp_items (doc ! i) @ [ex]) @ allItems (drop (Suc i) doc))"
    using i by (simp add: allItems_list_update)
  also have "\<dots> = add_mset ex (mset (allItems (take i doc) @ grp_items (doc ! i) @ allItems (drop (Suc i) doc)))"
    by simp
  finally show ?thesis using allItems_nth [OF i] by simp
qed

lemma addNew_has_group:
  "\<exists>g\<in>set (addNew grp ex doc).
      toLowerCase (grp_group g) = toLowerCase grp \<and> ex \<in> set (grp_items g)"
proof (cases "findIndex (\<lambda>g. toLowerCase (grp_group g) = toLowerCase grp) doc")
  case None
  then show ?thesis by (simp add: addNew_def)
next
  case (Some i)
  then have i: "i < length doc" and "toLowerCase (grp_group (doc ! i)) = toLowerCase grp"
    using findIndex_Some by fastforce+
  with Some show ?thesis
    by (auto simp: addNew_def set_update_memI intro!: bexI [where x = "(doc ! i)\<lparr>grp_items := grp_items (doc ! i) @ [ex]\<rparr>"])
qed

lemma updateLoop_None:
  "updateLoop orig ex doc = None \<longleftrightarrow> orig \<notin> ex_id ` set (allItems doc)"
proof (induction doc)
  case Nil
  then show ?case by (simp add: allItems_Nil)
next
  case (Cons g gs)
  show ?case
  proof (cases "findIndex (\<lambda>item. ex_id item = orig) (grp_items g)")
    case None
    then have "orig \<notin> ex_id ` set (grp_items g)" by (auto simp: findIndex_None)
    with None Cons show ?thesis by (auto simp: allItems_Cons)
  next
    case (Some i)
    then have "i < length (grp_items g)" "ex_id (grp_items g ! i) = orig"
      using findIndex_Some by fastforce+
    then have "orig \<in> ex_id ` set (grp_items g)" by (metis imageI nth_mem)
    with Some show ?thesis by (auto simp: allItems_Cons)
  qed
qed

lemma updateLoop_Some:
  assumes "updateLoop orig ex doc = Some d"
  shows "\<exists>old\<in>set (allItems doc). ex_id old = orig \<and>
           mset (allItems d) = add_mset ex (mset (allItems doc) - {#old#})"
  using assms
proof (induction doc arbitrary: d)
  case Nil
  then show ?case by simp
next
  case (Cons g gs)
  show ?case
  proof (cases "findIndex (\<lambda>item. ex_id item = orig) (grp_items g)")
    case (Some i)
    then have i: "i < length (grp_items g)" and id: "ex_id (grp_items g ! i) = orig"
      using findIndex_Some by fastforce+
    from Some Cons.prems have d: "d = g\<lparr>grp_items := (grp_items g)[i := ex]\<rparr> # gs" by simp
    let ?old = "grp_items g ! i"
    have "?old \<in> set (allItems (g # gs))" using i by (simp add: allItems_def)
    moreover have "mset (allItems d) = add_mset ex (mset (allItems (g # gs)) - {#?old#})"
      using i by (simp add: d allItems_def mset_update)
    ultimately show ?thesis using id by blast
  next
    case None
    with Cons.prems obtain d' where d': "updateLoop orig ex gs = Some d'" and d: "d = g # d'"
      by auto
    from Cons.IH [OF d'] obtain old where old: "old \<in> set (allItems gs)" "ex_id old = orig"
      "mset (allItems d') = add_mset ex (mset (allItems gs) - {#old#})" by blast
    have "mset (allItems d) = add_mset ex (mset (allItems (g # gs)) - {#old#})"
      using old(1,3) by (simp add: d allItems_def)
    with old show ?thesis by (auto simp: allItems_def)
  qed
qed

lemma findIndex_first: "findIndex P xs = Some i \<Longrightarrow> j < i \<Longrightarrow> \<not> P (xs ! j)"
proof (induction xs arbitrary: i j)
  case Nil
  then show ?case by simp
next
  case (Cons x xs)
  show ?case
  proof (cases "P x")
    case True
    with Cons.prems show ?thesis by simp
  next
    case False
    with Cons.prems obtain i' where i': "findIndex P xs = Some i'" "i = Suc i'"
      by auto
    show ?thesis
    proof (cases j)
      case 0
      with False show ?thesis by simp
    next
      case (Suc k)
      with Cons.prems(2) i'(2) have "k < i'" by simp
      from Cons.IH [OF i'(1) this] Suc show ?thesis by simp
    qed
  qed
qed

lemma updateLoop_in_place:
  assumes "updateLoop orig ex doc = Some d"
  shows "\<exists>gi i. gi < length doc \<and> i < length (grp_items (doc ! gi)) \<and>
           ex_id (grp_items (doc ! gi) ! i) = orig \<and>
           (\<forall>j<gi. orig \<notin> ex_id ` set (grp_items (doc ! j))) \<and>
           (\<forall>j<i. ex_id (grp_items (doc ! gi) ! j) \<noteq> orig) \<and>
           d = doc[gi := (doc ! gi)\<lparr>grp_items := (grp_items (doc ! gi))[i := ex]\<rparr>]"
  using assms
proof (induction doc arbitrary: d)
  case Nil
  then show ?case by simp
next
  case (Cons g gs)
  show ?case
  proof (cases "findIndex (\<lambda>item. ex_id item = orig) (grp_items g)")
    case (Some i)
    then have i: "i < length (grp_items g)" "ex_id (grp_items g ! i) = orig"
      using findIndex_Some by fastforce+
    have first: "\<forall>j<i. ex_id (grp_items g ! j) \<noteq> orig"
      using findIndex_first [OF Some] by blast
    from Some Cons.prems have d: "d = g\<lparr>grp_items := (grp_items g)[i := ex]\<rparr> # gs" by simp
    show ?thesis
      using i first
      by (intro exI [where x = 0] exI [where x = i]) (simp add: d)
  next
    case None
    then have none: "orig \<notin> ex_id ` set (grp_items g)" by (auto simp: findIndex_None)
    from None Cons.prems obtain d' where d': "updateLoop orig ex gs = Some d'" and d: "d = g # d'"
      by auto
    from Cons.IH [OF d'] obtain gi i where
      gi: "gi < length gs" and i: "i < length (grp_items (gs ! gi))"
      and m: "ex_id (grp_items (gs ! gi) ! i) = orig"
      and before: "\<forall>j<gi. orig \<notin> ex_id ` set (grp_items (gs ! j))"
      and first: "\<forall>j<i. ex_id (grp_items (gs ! gi) ! j) \<noteq> orig"
      and eq: "d' = gs[gi := (gs ! gi)\<lparr>grp_items := (grp_items (gs ! gi))[i := ex]\<rparr>]"
      by blast
    have before': "\<forall>j<Suc gi. orig \<notin> ex_id ` set (grp_items ((g # gs) ! j))"
    proof (intro allI impI)
      fix j assume "j < Suc gi"
      then show "orig \<notin> ex_id ` set (grp_items ((g # gs) ! j))"
        using none before by (cases j) simp_all
    qed
    have at: "(g # gs) ! Suc gi = gs ! gi" by simp
    have "d = (g # gs)[Suc gi := ((g # gs) ! Suc gi)
                \<lparr>grp_items := (grp_items ((g # gs) ! Suc gi))[i := ex]\<rparr>]"
      by (simp add: d eq)
    moreover have "Suc gi < length (g # gs)" using gi by simp
    moreover note before'
    moreover have "i < length (grp_items ((g # gs) ! Suc gi))"
      "ex_id (grp_items ((g # gs) ! Suc gi) ! i) = orig"
      "\<forall>j<i. ex_id (grp_items ((g # gs) ! Suc gi) ! j) \<noteq> orig"
      using i m first by (simp_all only: at)
    ultimately show ?thesis by blast
  qed
qed

lemma replaced_id_gone:
  assumes "distinct (map ex_id xs)" and "old \<in> set xs" and "ex_id new \<noteq> ex_id old"
    and "mset ys = add_mset new (mset xs - {#old#})"
  shows "ex_id old \<notin> ex_id ` set ys"
proof
  assume "ex_id old \<in> ex_id ` set ys"
  then obtain y where y: "y \<in> set ys" "ex_id y = ex_id old" by auto
  then have "y \<in># add_mset new (mset xs - {#old#})" using assms(4) by (metis set_mset_mset)
  with y(2) assms(3) have in_diff: "y \<in># mset xs - {#old#}" by auto
  then have "y \<in> set xs" by (meson in_diffD in_multiset_in_set)
  with assms(1,2) y(2) have "y = old"
    by (meson distinct_map inj_onD)
  moreover have "distinct xs" using assms(1) by (simp add: distinct_map)
  then have "count (mset xs) old \<le> 1"
    by (simp add: distinct_count_atmost_1)
  ultimately show False using in_diff
    by (metis count_greater_zero_iff count_diff count_single diff_is_0_eq not_less_zero zero_less_iff_neq_zero)
qed

subsection \<open>processVariations computes the first error or the normalized tree\<close>

lemma scan_append:
  "scan (A @ B) S =
     (case scan A S of Some e \<Rightarrow> Some e | None \<Rightarrow> scan B (S \<union> set (submittedIds A)))"
  by (induction A arbitrary: S) (auto simp: submittedIds_def split: option.splits)

lemma outcome_Nil: "outcome [] [] S = Inr ([], S)"
  by (simp add: outcome_def submittedIds_def)

lemma mapItems_step:
  assumes sub: "seen \<subseteq> S"
    and H1: "\<And>S1. l = Variacion \<Longrightarrow>
        processVariations rsubs SubVariacion S1 =
          outcome (visited rsubs SubVariacion) (expected rsubs SubVariacion) S1"
    and H2: "\<And>S2. l = SubVariacion \<Longrightarrow>
        processVariations rets TipoEjecucion S2 =
          outcome (visited rets TipoEjecucion) (expected rets TipoEjecucion) S2"
    and H3: "\<And>seen' S3. seen' \<subseteq> S3 \<Longrightarrow>
        mapItems rest l seen' S3 = outcome (visitedItems rest l) (expectedItems rest l) S3"
  shows "mapItems (Raw rid rname rimg runi rsubs rets # rest) l seen S =
         outcome (visitedItems (Raw rid rname rimg runi rsubs rets # rest) l)
           (expectedItems (Raw rid rname rimg runi rsubs rets # rest) l) S"
proof -
  let ?x = "Raw rid rname rimg runi rsubs rets"
  let ?id = "trimOrEmpty rid"
  let ?nm = "trimOrEmpty rname"
  define A where "A = (if l = Variacion then visited rsubs SubVariacion else [])"
  define EA where "EA = (if l = Variacion then expected rsubs SubVariacion else [])"
  define B where "B = (if l = SubVariacion then visited rets TipoEjecucion else [])"
  define EB where "EB = (if l = SubVariacion then expected rets TipoEjecucion else [])"
  define R where "R = visitedItems rest l"
  define ER where "ER = expectedItems rest l"
  define img where "img = (if truthy rimg then rimg else None)"
  have vis: "visitedItems (?x # rest) l = (l, ?x) # A @ B @ R"
    by (simp add: A_def B_def R_def)
  have r1: "\<And>S1. (if l = Variacion \<and> rsubs \<noteq> None
              then processVariations rsubs SubVariacion S1 else Inr ([], S1)) =
            outcome A EA S1"
    using H1 by (cases rsubs) (auto simp: outcome_Nil A_def EA_def)
  have r2: "\<And>S2. (if l = SubVariacion \<and> rets \<noteq> None
              then processVariations rets TipoEjecucion S2 else Inr ([], S2)) =
            outcome B EB S2"
    using H2 by (cases rets) (auto simp: outcome_Nil B_def EB_def)
  have im: "(case rimg of None \<Rightarrow> None | Some u \<Rightarrow> if u = [] then None else Some u) = img"
    by (auto simp: truthy_def img_def split: option.splits)
  have ex: "expectedItems (?x # rest) l =
      Node ?id ?nm img (runi = JString ''true'')
        (if EA = [] then None else Some EA) (if EB = [] then None else Some EB) # ER"
    by (simp add: nonEmpty_def EA_def EB_def ER_def img_def trimOrEmpty_eq)
  show ?thesis
  proof (cases "idRegex ?id \<and> ?nm \<noteq> [] \<and> ?id \<notin> S")
    case False
    then show ?thesis
      using sub
      unfolding vis
      by (auto simp: outcome_def submittedId_alt submittedName_alt idRegex_def Let_def)
  next
    case True
    then have ok: "idRegex ?id" "?id \<noteq> []" "?nm \<noteq> []" "?id \<notin> S" "?id \<notin> seen"
      using sub by (auto simp: idRegex_def)
    define S1 where "S1 = insert ?id S"
    have m: "mapItems (?x # rest) l seen S =
      (case outcome A EA S1 of
          Inl e \<Rightarrow> Inl e
        | Inr (subs, allIds1) \<Rightarrow>
          (case outcome B EB allIds1 of
             Inl e \<Rightarrow> Inl e
           | Inr (ets, allIds2) \<Rightarrow>
             (case mapItems rest l (insert ?id seen) allIds2 of
                Inl e \<Rightarrow> Inl e
              | Inr (out, allIds3) \<Rightarrow>
                  Inr (Node ?id ?nm img
                         (runi = JString ''true'')
                         (if subs = [] then None else Some subs)
                         (if ets = [] then None else Some ets) # out, allIds3))))"
      using ok by (simp only: mapItems.simps Let_def r1 r2 im S1_def) simp
    have sc: "scan (visitedItems (?x # rest) l) S = scan (A @ B @ R) S1"
      using ok unfolding vis by (simp add: submittedId_alt submittedName_alt S1_def)
    have ids: "S \<union> set (submittedIds (visitedItems (?x # rest) l)) =
        S1 \<union> set (submittedIds A) \<union> set (submittedIds B) \<union> set (submittedIds R)"
      unfolding vis by (auto simp: submittedIds_def submittedId_alt S1_def)
    let ?lhs = "mapItems (?x # rest) l seen S"
    let ?rhs = "outcome (visitedItems (?x # rest) l) (expectedItems (?x # rest) l) S"
    show ?thesis
    proof (cases "scan A S1")
      case (Some e)
      then have "outcome A EA S1 = Inl e" by (simp add: outcome_def)
      then have "?lhs = Inl e" unfolding m by simp
      moreover have "scan (A @ B @ R) S1 = Some e"
        using Some by (simp add: scan_append)
      then have "?rhs = Inl e" unfolding outcome_def sc by simp
      ultimately show ?thesis by simp
    next
      case sA: None
      define S2 where "S2 = S1 \<union> set (submittedIds A)"
      have oA: "outcome A EA S1 = Inr (EA, S2)" using sA by (simp add: outcome_def S2_def)
      show ?thesis
      proof (cases "scan B S2")
        case (Some e)
        then have "outcome B EB S2 = Inl e" by (simp add: outcome_def)
        then have "?lhs = Inl e" unfolding m oA by simp
        moreover have "scan (A @ B @ R) S1 = Some e"
          using sA Some by (simp add: scan_append S2_def)
        then have "?rhs = Inl e" unfolding outcome_def sc by simp
        ultimately show ?thesis by simp
      next
        case sB: None
        define S3 where "S3 = S2 \<union> set (submittedIds B)"
        have oB: "outcome B EB S2 = Inr (EB, S3)" using sB by (simp add: outcome_def S3_def)
        have "insert ?id seen \<subseteq> S3" using sub by (auto simp: S3_def S2_def S1_def)
        from H3 [OF this]
        have r3: "mapItems rest l (insert ?id seen) S3 = outcome R ER S3"
          by (simp add: R_def ER_def)
        have scR: "scan (A @ B @ R) S1 = scan R S3"
          using sA sB by (simp add: scan_append S2_def S3_def)
        have ids': "S \<union> set (submittedIds (visitedItems (?x # rest) l)) =
            S3 \<union> set (submittedIds R)"
          unfolding ids by (simp add: S3_def S2_def)
        have l3: "?lhs =
             (case outcome R ER S3 of
                Inl e \<Rightarrow> Inl e
              | Inr (out, allIds3) \<Rightarrow>
                  Inr (Node ?id ?nm img (runi = JString ''true'')
                         (if EA = [] then None else Some EA)
                         (if EB = [] then None else Some EB) # out, allIds3))"
          unfolding m oA by (simp add: oB r3)
        show ?thesis
        proof (cases "scan R S3")
          case (Some e)
          then have "?lhs = Inl e" unfolding l3 by (simp add: outcome_def)
          moreover have "?rhs = Inl e" using Some unfolding outcome_def sc scR by simp
          ultimately show ?thesis by simp
        next
          case None
          then have "?lhs = Inr (expectedItems (?x # rest) l, S3 \<union> set (submittedIds R))"
            unfolding l3 ex by (simp add: outcome_def)
          moreover have "?rhs = Inr (expectedItems (?x # rest) l, S3 \<union> set (submittedIds R))"
            using None by (simp only: outcome_def sc scR ids' option.case)
          ultimately show ?thesis by simp
        qed
      qed
    qed
  qed
qed

lemma mapItems_outcome_level:
  assumes H1: "\<And>rsubs S1. l = Variacion \<Longrightarrow>
        processVariations rsubs SubVariacion S1 =
          outcome (visited rsubs SubVariacion) (expected rsubs SubVariacion) S1"
    and H2: "\<And>rets S2. l = SubVariacion \<Longrightarrow>
        processVariations rets TipoEjecucion S2 =
          outcome (visited rets TipoEjecucion) (expected rets TipoEjecucion) S2"
    and "seen \<subseteq> S"
  shows "mapItems xs l seen S = outcome (visitedItems xs l) (expectedItems xs l) S"
  using assms(3)
proof (induction xs arbitrary: seen S)
  case Nil
  then show ?case by (simp add: outcome_Nil)
next
  case (Cons x xs)
  obtain rid rname rimg runi rsubs rets where x: "x = Raw rid rname rimg runi rsubs rets"
    by (cases x)
  show ?case
    unfolding x
    by (rule mapItems_step [OF Cons.prems H1 H2 Cons.IH])
qed

lemma processVariations_outcome_level:
  assumes H1: "\<And>rsubs S1. l = Variacion \<Longrightarrow>
        processVariations rsubs SubVariacion S1 =
          outcome (visited rsubs SubVariacion) (expected rsubs SubVariacion) S1"
    and H2: "\<And>rets S2. l = SubVariacion \<Longrightarrow>
        processVariations rets TipoEjecucion S2 =
          outcome (visited rets TipoEjecucion) (expected rets TipoEjecucion) S2"
  shows "processVariations ld l S = outcome (visited ld l) (expected ld l) S"
proof (cases ld)
  case None
  then show ?thesis by (simp add: outcome_Nil)
next
  case (Some xs)
  have "mapItems xs l {} S = outcome (visitedItems xs l) (expectedItems xs l) S"
    by (rule mapItems_outcome_level [OF H1 H2]) simp_all
  with Some show ?thesis by simp
qed

lemma processVariations_outcome:
  "processVariations ld l S = outcome (visited ld l) (expected ld l) S"
proof -
  have t: "\<And>ld S. processVariations ld TipoEjecucion S =
      outcome (visited ld TipoEjecucion) (expected ld TipoEjecucion) S"
    by (rule processVariations_outcome_level) simp_all
  have s: "\<And>ld S. processVariations ld SubVariacion S =
      outcome (visited ld SubVariacion) (expected ld SubVariacion) S"
    by (rule processVariations_outcome_level) (simp_all add: t)
  show ?thesis
    by (rule processVariations_outcome_level) (simp_all add: s t)
qed

lemma scan_None_iff:
  "scan vis S = None \<longleftrightarrow>
     list_all (\<lambda>p. validNode (snd p)) vis \<and> distinct (submittedIds vis) \<and>
     set (submittedIds vis) \<inter> S = {}"
proof (induction vis arbitrary: S)
  case Nil
  then show ?case by (simp add: submittedIds_def)
next
  case (Cons p vis)
  obtain l x where p: "p = (l, x)" by (cases p)
  show ?case
  proof (cases "idRegex (submittedId x) \<and> submittedName x \<noteq> [] \<and> submittedId x \<notin> S")
    case True
    then have "scan (p # vis) S = scan vis (insert (submittedId x) S)" by (simp add: p)
    with True Cons.IH [of "insert (submittedId x) S"] show ?thesis
      by (auto simp: p submittedIds_def validNode_def)
  next
    case False
    then have "scan (p # vis) S \<noteq> None" by (auto simp: p)
    with False show ?thesis
      by (auto simp: p submittedIds_def validNode_def)
  qed
qed

lemma scan_first_error:
  assumes "scan pre S = None"
  shows "scan (pre @ (l, x) # post) S =
         (if \<not> idRegex (submittedId x) then Some (InvalidId l)
          else if submittedName x = [] then Some (EmptyName l)
          else if submittedId x \<in> S \<union> set (submittedIds pre)
            then Some (DuplicateId l (submittedId x))
          else scan post (insert (submittedId x) (S \<union> set (submittedIds pre))))"
  using assms by (simp add: scan_append)

lemma processVariations_Inr_iff:
  "processVariations ld l S = Inr r \<longleftrightarrow>
     scan (visited ld l) S = None \<and>
     r = (expected ld l, S \<union> set (submittedIds (visited ld l)))"
  by (auto simp: processVariations_outcome outcome_def split: option.splits)

lemma processVariations_Inl_iff:
  "processVariations ld l S = Inl e \<longleftrightarrow> scan (visited ld l) S = Some e"
  by (auto simp: processVariations_outcome outcome_def split: option.splits)

lemma invalid_node_fails:
  assumes "visited ld l = pre @ (k, x) # post" and "\<not> validNode x"
  shows "\<exists>e. processVariations ld l S = Inl e"
proof -
  have "\<not> list_all (\<lambda>p. validNode (snd p)) (visited ld l)"
    using assms by simp
  then have "scan (visited ld l) S \<noteq> None" by (simp add: scan_None_iff)
  then show ?thesis by (auto simp: processVariations_Inl_iff)
qed

lemma taken_id_not_acceptable:
  assumes "p \<in> set vis" and "submittedId (snd p) \<in> taken"
  shows "\<not> acceptable vis taken"
  using assms by (auto simp: acceptable_def submittedIds_def)

lemma not_acceptable_fails:
  assumes "\<not> acceptable (visited ld l) S"
  shows "\<exists>e. processVariations ld l S = Inl e"
proof -
  from assms have "scan (visited ld l) S \<noteq> None"
    by (simp add: scan_None_iff acceptable_def)
  then show ?thesis by (auto simp: processVariations_Inl_iff)
qed

subsection \<open>The identifiers already taken\<close>

lemma fold_union:
  assumes "\<And>x a. g x a = a \<union> G x"
  shows "fold g xs acc = acc \<union> (\<Union>x\<in>set xs. G x)"
  by (induction xs arbitrary: acc) (auto simp: assms)

lemma addExecutionTypes_eq:
  "addExecutionTypes sv acc = acc \<union> node_id ` set (optList (node_executionTypes sv))"
proof (cases "node_executionTypes sv")
  case None
  then show ?thesis by (simp add: addExecutionTypes_def optList_def)
next
  case (Some ets)
  have "fold (\<lambda>et a. insert (node_id et) a) ets acc = acc \<union> (\<Union>et\<in>set ets. {node_id et})"
    by (rule fold_union) simp
  with Some show ?thesis by (auto simp: addExecutionTypes_def optList_def)
qed

lemma addSubVariations_eq:
  "addSubVariations v acc =
     acc \<union> (\<Union>sv\<in>set (optList (node_subVariations v)).
               insert (node_id sv) (node_id ` set (optList (node_executionTypes sv))))"
proof (cases "node_subVariations v")
  case None
  then show ?thesis by (simp add: addSubVariations_def optList_def)
next
  case (Some svs)
  have "fold (\<lambda>sv a. addExecutionTypes sv (insert (node_id sv) a)) svs acc =
      acc \<union> (\<Union>sv\<in>set svs. insert (node_id sv) (node_id ` set (optList (node_executionTypes sv))))"
    by (rule fold_union) (auto simp: addExecutionTypes_eq)
  with Some show ?thesis by (simp add: addSubVariations_def optList_def)
qed

lemma addItem_eq: "addItem item acc = acc \<union> exerciseIds item"
proof (cases "ex_variations item")
  case None
  then show ?thesis by (simp add: addItem_def exerciseIds_def optList_def)
next
  case (Some vs)
  have "fold (\<lambda>v a. addSubVariations v (insert (node_id v) a)) vs (insert (ex_id item) acc) =
      insert (ex_id item) acc \<union>
      (\<Union>v\<in>set vs. insert (node_id v)
         (\<Union>sv\<in>set (optList (node_subVariations v)).
            insert (node_id sv) (node_id ` set (optList (node_executionTypes sv)))))"
    by (rule fold_union) (auto simp: addSubVariations_eq)
  with Some show ?thesis by (simp add: addItem_def exerciseIds_def optList_def)
qed

lemma collectAllIds_eq:
  "collectAllIds em orig doc =
     (\<Union>item\<in>{i \<in> set (allItems doc). \<not> truthy em \<or> Some (ex_id i) \<noteq> orig}. exerciseIds item)"
proof -
  let ?keep = "\<lambda>i. \<not> truthy em \<or> Some (ex_id i) \<noteq> orig"
  have inner: "\<And>g acc. fold (\<lambda>item a. if ?keep item then addItem item a else a) (grp_items g) acc =
      acc \<union> (\<Union>item\<in>set (grp_items g). if ?keep item then exerciseIds item else {})"
    by (rule fold_union) (simp add: addItem_eq)
  have "collectAllIds em orig doc =
      {} \<union> (\<Union>g\<in>set doc. \<Union>item\<in>set (grp_items g). if ?keep item then exerciseIds item else {})"
    unfolding collectAllIds_def by (rule fold_union) (rule inner)
  also have "\<dots> = (\<Union>item\<in>{i \<in> set (allItems doc). ?keep i}. exerciseIds item)"
    by (auto simp: allItems_def split: if_splits)
  finally show ?thesis .
qed

subsection \<open>Normalizing a normalized tree\<close>

lemma visited_nonEmpty: "visited (nonEmpty xs) l = visitedItems xs l"
  by (simp add: nonEmpty_def)

lemma expected_nonEmpty: "expected (nonEmpty xs) l = expectedItems xs l"
  by (simp add: nonEmpty_def)

lemma nonEmpty_map: "map_option (map f) (nonEmpty E) = nonEmpty (map f E)"
  by (simp add: nonEmpty_def)

lemma unilateral_string: "(JString (if u then ''true'' else ''false'') = JString ''true'') = u"
  by (cases u) simp_all

lemma renormalizes_step:
  assumes v: "list_all (\<lambda>p. validNode (snd p))
                (visitedItems (Raw rid rname rimg runi rsubs rets # rest) l)"
    and H1: "l = Variacion \<Longrightarrow>
        renormalizes (visited rsubs SubVariacion) (expected rsubs SubVariacion)
          (map roundtrip (expected rsubs SubVariacion)) SubVariacion"
    and H2: "l = SubVariacion \<Longrightarrow>
        renormalizes (visited rets TipoEjecucion) (expected rets TipoEjecucion)
          (map roundtrip (expected rets TipoEjecucion)) TipoEjecucion"
    and H3: "renormalizes (visitedItems rest l) (expectedItems rest l)
          (map roundtrip (expectedItems rest l)) l"
  shows "renormalizes (visitedItems (Raw rid rname rimg runi rsubs rets # rest) l)
           (expectedItems (Raw rid rname rimg runi rsubs rets # rest) l)
           (map roundtrip (expectedItems (Raw rid rname rimg runi rsubs rets # rest) l)) l"
proof -
  let ?x = "Raw rid rname rimg runi rsubs rets"
  let ?i = "trim (str rid)"
  let ?n = "trim (str rname)"
  define img where "img = (if truthy rimg then rimg else None)"
  from v have "validNode ?x" by simp
  then have idok: "idRegex ?i" and nmok: "?n \<noteq> []"
    by (simp_all add: validNode_def submittedId_def submittedName_def)
  have ti: "trim (str (Some ?i)) = ?i" using idok by (simp add: str_def trim_idRegex)
  have tn: "trim (str (Some ?n)) = ?n" by (simp add: str_def trim_trim)
  have timg: "(if truthy img then img else None) = img" by (simp add: img_def)
  show ?thesis
  proof (cases l)
    case Variacion
    define E where "E = expected rsubs SubVariacion"
    have ex: "expectedItems (?x # rest) l =
        Node ?i ?n img (runi = JString ''true'') (nonEmpty E) None # expectedItems rest l"
      by (simp add: Variacion img_def E_def)
    have vis: "visitedItems (?x # rest) l =
        (l, ?x) # visited rsubs SubVariacion @ visitedItems rest l"
      by (simp add: Variacion)
    from H1 [OF Variacion] have h1: "renormalizes (visited rsubs SubVariacion) E (map roundtrip E) SubVariacion"
      by (simp add: E_def)
    show ?thesis
      unfolding ex vis
      using h1 H3 idok nmok
      by (simp add: renormalizes_def Variacion visited_nonEmpty expected_nonEmpty nonEmpty_map
          submittedIds_def submittedId_def submittedName_def validNode_def ti tn timg
          unilateral_string)
  next
    case SubVariacion
    define E where "E = expected rets TipoEjecucion"
    have ex: "expectedItems (?x # rest) l =
        Node ?i ?n img (runi = JString ''true'') None (nonEmpty E) # expectedItems rest l"
      by (simp add: SubVariacion img_def E_def)
    have vis: "visitedItems (?x # rest) l =
        (l, ?x) # visited rets TipoEjecucion @ visitedItems rest l"
      by (simp add: SubVariacion)
    from H2 [OF SubVariacion] have h2: "renormalizes (visited rets TipoEjecucion) E (map roundtrip E) TipoEjecucion"
      by (simp add: E_def)
    show ?thesis
      unfolding ex vis
      using h2 H3 idok nmok
      by (simp add: renormalizes_def SubVariacion visited_nonEmpty expected_nonEmpty nonEmpty_map
          submittedIds_def submittedId_def submittedName_def validNode_def ti tn timg
          unilateral_string)
  next
    case TipoEjecucion
    have ex: "expectedItems (?x # rest) l =
        Node ?i ?n img (runi = JString ''true'') None None # expectedItems rest l"
      by (simp add: TipoEjecucion img_def)
    have vis: "visitedItems (?x # rest) l = (l, ?x) # visitedItems rest l"
      by (simp add: TipoEjecucion)
    show ?thesis
      unfolding ex vis
      using H3 idok nmok
      by (simp add: renormalizes_def TipoEjecucion
          submittedIds_def submittedId_def submittedName_def validNode_def ti tn timg
          unilateral_string)
  qed
qed

lemma renormalizes_Nil: "renormalizes [] [] [] l"
  by (simp add: renormalizes_def submittedIds_def)

lemma renormalizes_level:
  assumes H1: "\<And>ld. l = Variacion \<Longrightarrow>
        list_all (\<lambda>p. validNode (snd p)) (visited ld SubVariacion) \<Longrightarrow>
        renormalizes (visited ld SubVariacion) (expected ld SubVariacion)
          (map roundtrip (expected ld SubVariacion)) SubVariacion"
    and H2: "\<And>ld. l = SubVariacion \<Longrightarrow>
        list_all (\<lambda>p. validNode (snd p)) (visited ld TipoEjecucion) \<Longrightarrow>
        renormalizes (visited ld TipoEjecucion) (expected ld TipoEjecucion)
          (map roundtrip (expected ld TipoEjecucion)) TipoEjecucion"
    and v: "list_all (\<lambda>p. validNode (snd p)) (visitedItems xs l)"
  shows "renormalizes (visitedItems xs l) (expectedItems xs l)
           (map roundtrip (expectedItems xs l)) l"
  using v
proof (induction xs)
  case Nil
  then show ?case by (simp add: renormalizes_Nil)
next
  case (Cons x xs)
  obtain rid rname rimg runi rsubs rets where x: "x = Raw rid rname rimg runi rsubs rets"
    by (cases x)
  from Cons.prems have rest: "list_all (\<lambda>p. validNode (snd p)) (visitedItems xs l)"
    and subs: "l = Variacion \<Longrightarrow> list_all (\<lambda>p. validNode (snd p)) (visited rsubs SubVariacion)"
    and ets: "l = SubVariacion \<Longrightarrow> list_all (\<lambda>p. validNode (snd p)) (visited rets TipoEjecucion)"
    by (simp_all add: x)
  show ?case
    unfolding x
  proof (rule renormalizes_step)
    show "list_all (\<lambda>p. validNode (snd p))
            (visitedItems (Raw rid rname rimg runi rsubs rets # xs) l)"
      using Cons.prems by (simp only: x)
    show "renormalizes (visited rsubs SubVariacion) (expected rsubs SubVariacion)
            (map roundtrip (expected rsubs SubVariacion)) SubVariacion" if "l = Variacion"
      using that H1 subs by blast
    show "renormalizes (visited rets TipoEjecucion) (expected rets TipoEjecucion)
            (map roundtrip (expected rets TipoEjecucion)) TipoEjecucion" if "l = SubVariacion"
      using that H2 ets by blast
    show "renormalizes (visitedItems xs l) (expectedItems xs l)
            (map roundtrip (expectedItems xs l)) l"
      by (rule Cons.IH [OF rest])
  qed
qed

lemma renormalizes_option_level:
  assumes H1: "\<And>ld. l = Variacion \<Longrightarrow>
        list_all (\<lambda>p. validNode (snd p)) (visited ld SubVariacion) \<Longrightarrow>
        renormalizes (visited ld SubVariacion) (expected ld SubVariacion)
          (map roundtrip (expected ld SubVariacion)) SubVariacion"
    and H2: "\<And>ld. l = SubVariacion \<Longrightarrow>
        list_all (\<lambda>p. validNode (snd p)) (visited ld TipoEjecucion) \<Longrightarrow>
        renormalizes (visited ld TipoEjecucion) (expected ld TipoEjecucion)
          (map roundtrip (expected ld TipoEjecucion)) TipoEjecucion"
    and v: "list_all (\<lambda>p. validNode (snd p)) (visited ld l)"
  shows "renormalizes (visited ld l) (expected ld l) (map roundtrip (expected ld l)) l"
proof (cases ld)
  case None
  then show ?thesis by (simp add: renormalizes_Nil)
next
  case (Some xs)
  with v have "list_all (\<lambda>p. validNode (snd p)) (visitedItems xs l)" by simp
  from renormalizes_level [OF H1 H2 this] Some show ?thesis by simp
qed

lemma renormalizes_visited:
  assumes "list_all (\<lambda>p. validNode (snd p)) (visited ld l)"
  shows "renormalizes (visited ld l) (expected ld l) (map roundtrip (expected ld l)) l"
proof -
  have t: "\<And>ld. list_all (\<lambda>p. validNode (snd p)) (visited ld TipoEjecucion) \<Longrightarrow>
      renormalizes (visited ld TipoEjecucion) (expected ld TipoEjecucion)
        (map roundtrip (expected ld TipoEjecucion)) TipoEjecucion"
    by (rule renormalizes_option_level) simp_all
  have s: "\<And>ld. list_all (\<lambda>p. validNode (snd p)) (visited ld SubVariacion) \<Longrightarrow>
      renormalizes (visited ld SubVariacion) (expected ld SubVariacion)
        (map roundtrip (expected ld SubVariacion)) SubVariacion"
    by (rule renormalizes_option_level) (simp_all add: t)
  show ?thesis
    by (rule renormalizes_option_level) (simp_all add: s t assms)
qed

subsection \<open>The paths of the handler\<close>

lemma save_exercise_success:
  assumes "save_exercise lc newSha req st = (Success200 kind, st')"
  shows "\<exists>d. st' = \<lparr>content = sortAll lc d, sha = newSha\<rparr>"
  using assms
  by (auto simp: save_exercise_def Let_def createOrUpdateFileContents_def
      split: if_splits sum.splits option.splits prod.splits)

lemma save_exercise_create:
  assumes "basicOk req" and "fileSha req = Some (sha st)"
    and "\<not> (editMode req = Some ''true'' \<and> truthy (originalBaseId req))"
    and "str (baseId req) \<notin> collectAllIds (editMode req) (originalBaseId req) (content st)"
    and "processVariations (variations req) Variacion
           (collectAllIds (editMode req) (originalBaseId req) (content st)) = Inr (pv, ids)"
  shows "save_exercise lc newSha req st =
         (Success200 Anadido,
          \<lparr>content = sortAll lc (addNew (str (group req))
                        (mkExerciseObject lc (str (baseId req)) (str (baseName req)) pv)
                        (content st)),
           sha = newSha\<rparr>)"
  using assms
  by (auto simp: save_exercise_def Let_def createOrUpdateFileContents_def)

lemma save_exercise_update:
  assumes "editMode req = Some ''true''" and "truthy (originalBaseId req)"
    and "save_exercise lc newSha req st = (Success200 kind, st')"
  shows "kind = Actualizado \<and>
         (\<exists>pv ids d.
            processVariations (variations req) Variacion
              (collectAllIds (editMode req) (originalBaseId req) (content st)) = Inr (pv, ids) \<and>
            updateLoop (str (originalBaseId req))
              (mkExerciseObject lc (str (baseId req)) (str (baseName req)) pv) (content st) = Some d \<and>
            st' = \<lparr>content = sortAll lc d, sha = newSha\<rparr>)"
  using assms
  by (auto simp: save_exercise_def Let_def createOrUpdateFileContents_def
      split: if_splits sum.splits option.splits prod.splits)

lemma save_exercise_not_found:
  assumes "editMode req = Some ''true''" and "truthy (originalBaseId req)"
    and "str (originalBaseId req) \<notin> ex_id ` set (allItems (content st))"
  shows "snd (save_exercise lc newSha req st) = st"
    and "fst (save_exercise lc newSha req st) \<noteq> Success200 k"
    and "basicOk req \<Longrightarrow> fileSha req = Some (sha st) \<Longrightarrow>
         str (baseId req) \<notin> collectAllIds (editMode req) (originalBaseId req) (content st) \<Longrightarrow>
         processVariations (variations req) Variacion
           (collectAllIds (editMode req) (originalBaseId req) (content st)) = Inr r \<Longrightarrow>
         fst (save_exercise lc newSha req st) = ServerError500 (NotFound (str (originalBaseId req)))"
  using assms updateLoop_None [of "str (originalBaseId req)" _ "content st"]
  by (auto simp: save_exercise_def Let_def createOrUpdateFileContents_def
      split: if_splits sum.splits option.splits prod.splits)

lemma save_exercise_rejects:
  assumes "\<not> basicOk req \<or>
     str (baseId req) \<in> collectAllIds (editMode req) (originalBaseId req) (content st) \<or>
     processVariations (variations req) Variacion
       (collectAllIds (editMode req) (originalBaseId req) (content st)) = Inl e"
  shows "snd (save_exercise lc newSha req st) = st"
    and "fst (save_exercise lc newSha req st) \<noteq> Success200 k"
    and "\<not> basicOk req \<Longrightarrow> fst (save_exercise lc newSha req st) = BadRequest400"
    and "basicOk req \<Longrightarrow> fileSha req = Some (sha st) \<Longrightarrow>
         fst (save_exercise lc newSha req st) =
           (if str (baseId req) \<in> collectAllIds (editMode req) (originalBaseId req) (content st)
            then DuplicateBaseId400 (str (baseId req))
            else ValidationError400 e)"
  using assms
  by (auto simp: save_exercise_def Let_def createOrUpdateFileContents_def
      split: if_splits sum.splits option.splits prod.splits)

lemma save_exercise_stores_base:
  assumes "save_exercise lc newSha req st = (Success200 kind, st')"
  shows "\<exists>e\<in>set (allItems (content st')).
           ex_id e = str (baseId req) \<and> ex_name e = str (baseName req)"
proof -
  from assms obtain pv d where
    d: "st' = \<lparr>content = sortAll lc d, sha = newSha\<rparr>"
    and c: "updateLoop (str (originalBaseId req))
              (mkExerciseObject lc (str (baseId req)) (str (baseName req)) pv) (content st) = Some d \<or>
            d = addNew (str (group req))
              (mkExerciseObject lc (str (baseId req)) (str (baseName req)) pv) (content st)"
    by (auto simp: save_exercise_def Let_def createOrUpdateFileContents_def
        split: if_splits sum.splits option.splits prod.splits)
  let ?new = "mkExerciseObject lc (str (baseId req)) (str (baseName req)) pv"
  have "?new \<in># mset (allItems d)"
  proof (cases "d = addNew (str (group req)) ?new (content st)")
    case True
    then show ?thesis by (simp add: mset_allItems_addNew)
  next
    case False
    with c have "updateLoop (str (originalBaseId req)) ?new (content st) = Some d" by simp
    from updateLoop_Some [OF this] obtain old where
      "mset (allItems d) = add_mset ?new (mset (allItems (content st)) - {#old#})" by blast
    then show ?thesis by (metis union_single_eq_member)
  qed
  then have "?new \<in> set (allItems (content st'))"
    using mset_allItems_sortAll [of lc d] by (metis d set_mset_mset store.select_convs(1))
  then show ?thesis
    by (intro bexI [where x = ?new]) (simp_all add: mkExerciseObject_def)
qed

section \<open>The claims\<close>

subsection \<open>C1: a stale version token\<close>

text \<open>
  C1, as stated, fails: a request whose token differs from the store's is answered with
  400, not 409, when the first check of the handler rejects it (here the base identifier
  \<^verbatim>\<open>Bad Id\<close>), because that check runs before the store is read.
\<close>

theorem stale_token_counterexample:
  "fileSha staleBadIdReq \<noteq> Some (sha emptyStore) \<and>
   fst (save_exercise exampleCompare ''t2'' staleBadIdReq emptyStore) \<noteq> Conflict409"
  by (simp add: save_exercise_def staleBadIdReq_def emptyStore_def request_defs)

text \<open>
  C1, amended: a write request that presents a version token differing from the token of
  the store never commits, so the store is unchanged; the response is Conflict (409) when
  the request passes the first check of the handler (group, baseId, baseName and fileSha
  present and not empty, baseId of the identifier syntax), and 400 otherwise.
\<close>

theorem stale_token_no_commit:
  assumes "fileSha req \<noteq> Some (sha st)"
  shows "snd (save_exercise lc newSha req st) = st \<and>
         fst (save_exercise lc newSha req st) =
           (if basicOk req then Conflict409 else BadRequest400)"
  using assms by (auto simp: save_exercise_def Let_def)

theorem stale_token_no_commit_witness:
  "fileSha staleReq \<noteq> Some (sha emptyStore) \<and> basicOk staleReq \<and>
   save_exercise exampleCompare ''t2'' staleReq emptyStore = (Conflict409, emptyStore)"
  using stale_token_no_commit [of staleReq emptyStore exampleCompare "''t2''"]
  by (simp add: staleReq_def emptyStore_def request_defs prod_eq_iff)

subsection \<open>C2: a validation failure aborts the submission\<close>

text \<open>
  C2: when the validation of some node of a submission fails (the base exercise is
  rejected by the first check or its identifier is taken, or the visited nodes of the tree
  are not acceptable: an identifier not of the syntax, an empty name, a duplicate, at any
  level), nothing is committed: the store is unchanged and the response is not a success.
  The response is a validation error (400) whenever the validation is run, that is when
  the first check fails or the token of the request is the store's.
\<close>

theorem validation_failure_aborts:
  assumes "\<not> basicOk req \<or>
     str (baseId req) \<in> collectAllIds (editMode req) (originalBaseId req) (content st) \<or>
     \<not> acceptable (visited (variations req) Variacion)
         (collectAllIds (editMode req) (originalBaseId req) (content st))"
  shows "snd (save_exercise lc newSha req st) = st \<and>
         (\<forall>k. fst (save_exercise lc newSha req st) \<noteq> Success200 k) \<and>
         (\<not> basicOk req \<longrightarrow> fst (save_exercise lc newSha req st) = BadRequest400) \<and>
         (basicOk req \<and> fileSha req = Some (sha st) \<longrightarrow>
            fst (save_exercise lc newSha req st) = DuplicateBaseId400 (str (baseId req)) \<or>
            (\<exists>e. fst (save_exercise lc newSha req st) = ValidationError400 e))"
proof -
  let ?S = "collectAllIds (editMode req) (originalBaseId req) (content st)"
  have "\<not> basicOk req \<or> str (baseId req) \<in> ?S \<or>
        (\<exists>e. processVariations (variations req) Variacion ?S = Inl e)"
  proof (cases "acceptable (visited (variations req) Variacion) ?S")
    case True
    with assms show ?thesis by blast
  next
    case False
    then have "scan (visited (variations req) Variacion) ?S \<noteq> None"
      by (simp add: scan_None_iff acceptable_def)
    then obtain e where "scan (visited (variations req) Variacion) ?S = Some e" by blast
    then show ?thesis by (simp add: processVariations_Inl_iff)
  qed
  then obtain e where h: "\<not> basicOk req \<or> str (baseId req) \<in> ?S \<or>
        processVariations (variations req) Variacion ?S = Inl e"
    by blast
  show ?thesis
    using save_exercise_rejects(1) [OF h] save_exercise_rejects(2) [OF h]
      save_exercise_rejects(3) [OF h] save_exercise_rejects(4) [OF h]
    by auto
qed

theorem validation_failure_aborts_witness:
  "\<not> acceptable (visited (variations inclineReq) Variacion)
       (collectAllIds (editMode inclineReq) (originalBaseId inclineReq) (content emptyStore)) \<and>
   save_exercise exampleCompare ''t2'' inclineReq emptyStore =
     (ValidationError400 (InvalidId Variacion), emptyStore)"
proof -
  have 1: "\<not> acceptable (visited (variations inclineReq) Variacion)
       (collectAllIds (editMode inclineReq) (originalBaseId inclineReq) (content emptyStore))"
    by (simp add: acceptable_def inclineReq_def validNode_def submittedId_def str_def
        trim_def isWhiteSpace_def idRegex_def idChar_def)
  have 2: "fst (save_exercise exampleCompare ''t2'' inclineReq emptyStore) =
      ValidationError400 (InvalidId Variacion)"
    by code_simp
  from validation_failure_aborts [of inclineReq emptyStore exampleCompare "''t2''"] 1
  have "snd (save_exercise exampleCompare ''t2'' inclineReq emptyStore) = emptyStore"
    by blast
  with 1 2 show ?thesis by (simp add: prod_eq_iff)
qed

subsection \<open>C3: what an update excludes from the taken identifiers\<close>

text \<open>
  C3, as stated, fails: during an update the identifiers nested in the exercise being
  edited do not count as taken. In a document where the exercise \<^verbatim>\<open>squat\<close> has the
  variation \<^verbatim>\<open>front-squat\<close>, an update of \<^verbatim>\<open>squat\<close> takes only the identifiers of the
  other exercise as taken, and resubmitting the variation \<^verbatim>\<open>front-squat\<close> is committed.
\<close>

theorem edited_exercise_excluded_counterexample:
  "collectAllIds (editMode editSquatReq) (originalBaseId editSquatReq) (content squatDoc) =
     {''lunge'', ''walking-lunge''} \<and>
   fst (save_exercise exampleCompare ''t2'' editSquatReq squatDoc) = Success200 Actualizado"
  by code_simp

text \<open>
  C3, amended: during an update the taken identifiers are exactly the identifiers, at all
  four levels, of the top-level exercises whose own identifier is not the original one:
  the entry being edited is left out as a whole, with the identifiers nested in it. Every
  taken identifier counts: a request that passes the first check with the store's token,
  and whose base identifier or some visited node's identifier is taken, is answered with a
  validation error and commits nothing.
\<close>

theorem taken_ids_during_update:
  assumes "editMode req = Some ''true''" and "truthy (originalBaseId req)"
  shows "collectAllIds (editMode req) (originalBaseId req) (content st) =
           (\<Union>item\<in>{i \<in> set (allItems (content st)). ex_id i \<noteq> str (originalBaseId req)}.
               exerciseIds item) \<and>
         (basicOk req \<and> fileSha req = Some (sha st) \<and>
          (str (baseId req) \<in> collectAllIds (editMode req) (originalBaseId req) (content st) \<or>
           (\<exists>p\<in>set (visited (variations req) Variacion).
               submittedId (snd p) \<in>
                 collectAllIds (editMode req) (originalBaseId req) (content st))) \<longrightarrow>
            snd (save_exercise lc newSha req st) = st \<and>
            (fst (save_exercise lc newSha req st) = DuplicateBaseId400 (str (baseId req)) \<or>
             (\<exists>e. fst (save_exercise lc newSha req st) = ValidationError400 e)))"
proof (intro conjI impI)
  have "{i \<in> set (allItems (content st)).
          \<not> truthy (editMode req) \<or> Some (ex_id i) \<noteq> originalBaseId req} =
        {i \<in> set (allItems (content st)). ex_id i \<noteq> str (originalBaseId req)}"
    using assms by (auto simp: truthy_def str_def split: option.splits)
  then show "collectAllIds (editMode req) (originalBaseId req) (content st) =
           (\<Union>item\<in>{i \<in> set (allItems (content st)). ex_id i \<noteq> str (originalBaseId req)}.
               exerciseIds item)"
    by (simp add: collectAllIds_eq)
next
  let ?S = "collectAllIds (editMode req) (originalBaseId req) (content st)"
  assume a: "basicOk req \<and> fileSha req = Some (sha st) \<and>
          (str (baseId req) \<in> ?S \<or>
           (\<exists>p\<in>set (visited (variations req) Variacion). submittedId (snd p) \<in> ?S))"
  have "str (baseId req) \<in> ?S \<or>
        (\<exists>e. processVariations (variations req) Variacion ?S = Inl e)"
    using a taken_id_not_acceptable not_acceptable_fails by blast
  then obtain e where h: "\<not> basicOk req \<or> str (baseId req) \<in> ?S \<or>
        processVariations (variations req) Variacion ?S = Inl e"
    by blast
  show "snd (save_exercise lc newSha req st) = st"
    by (rule save_exercise_rejects(1) [OF h])
  show "fst (save_exercise lc newSha req st) = DuplicateBaseId400 (str (baseId req)) \<or>
        (\<exists>e. fst (save_exercise lc newSha req st) = ValidationError400 e)"
    using save_exercise_rejects(4) [OF h] a by auto
qed

theorem taken_ids_during_update_witness:
  "editMode editSquatTakenReq = Some ''true'' \<and> truthy (originalBaseId editSquatTakenReq) \<and>
   (\<Union>item\<in>{i \<in> set (allItems (content squatDoc)). ex_id i \<noteq> ''squat''}. exerciseIds item) =
     {''lunge'', ''walking-lunge''} \<and>
   save_exercise exampleCompare ''t2'' editSquatTakenReq squatDoc =
     (ValidationError400 (DuplicateId Variacion ''walking-lunge''), squatDoc)"
proof -
  have 1: "editMode editSquatTakenReq = Some ''true''" "truthy (originalBaseId editSquatTakenReq)"
    by code_simp+
  have 2: "collectAllIds (editMode editSquatTakenReq) (originalBaseId editSquatTakenReq)
      (content squatDoc) = {''lunge'', ''walking-lunge''}"
    by code_simp
  have 3: "str (originalBaseId editSquatTakenReq) = ''squat''"
    by (simp add: editSquatTakenReq_def str_def)
  have 4: "save_exercise exampleCompare ''t2'' editSquatTakenReq squatDoc =
     (ValidationError400 (DuplicateId Variacion ''walking-lunge''), squatDoc)"
    by code_simp
  from taken_ids_during_update [OF 1, of squatDoc, THEN conjunct1] 2 3
  have "(\<Union>item\<in>{i \<in> set (allItems (content squatDoc)). ex_id i \<noteq> ''squat''}. exerciseIds item) =
     {''lunge'', ''walking-lunge''}"
    by simp
  with 1 4 show ?thesis by blast
qed

subsection \<open>C4: normalizing twice\<close>

text \<open>
  C4: normalization is idempotent. For every tree that a successful normalization
  returns, normalizing it again at the same level, after it has been stored and submitted
  again (against any part of the identifiers taken before the first run), succeeds and
  returns the identical tree: the same identifiers, names and image links, the same
  values of \<^verbatim>\<open>isUnilateral\<close> and the same presence or absence of children fields. The
  identifiers it adds are the ones the first run added.
\<close>

theorem renormalization_idempotent:
  assumes "processVariations ld l S = Inr (out, S')" and "S0 \<subseteq> S"
  shows "processVariations (Some (map roundtrip out)) l S0 = Inr (out, S0 \<union> (S' - S))"
proof -
  let ?vis = "visited ld l"
  from assms(1) have sc: "scan ?vis S = None" and out: "out = expected ld l"
    and S': "S' = S \<union> set (submittedIds ?vis)"
    by (simp_all add: processVariations_Inr_iff)
  from sc have v: "list_all (\<lambda>p. validNode (snd p)) ?vis" and d: "distinct (submittedIds ?vis)"
    and dj: "set (submittedIds ?vis) \<inter> S = {}"
    by (simp_all add: scan_None_iff)
  let ?again = "map roundtrip out"
  from renormalizes_visited [OF v]
  have ids: "submittedIds (visitedItems ?again l) = submittedIds ?vis"
    and v': "list_all (\<lambda>p. validNode (snd p)) (visitedItems ?again l)"
    and ex: "expectedItems ?again l = out"
    by (simp_all add: renormalizes_def out)
  have "set (submittedIds ?vis) \<inter> S0 = {}" using dj assms(2) by blast
  with v' d ids have "scan (visited (Some ?again) l) S0 = None"
    by (simp add: scan_None_iff)
  then have "processVariations (Some ?again) l S0 =
      Inr (expected (Some ?again) l, S0 \<union> set (submittedIds (visited (Some ?again) l)))"
    by (intro iffD2 [OF processVariations_Inr_iff] conjI refl)
  moreover have "S' - S = set (submittedIds ?vis)" using S' dj by blast
  ultimately show ?thesis by (simp add: ex ids)
qed

theorem renormalization_idempotent_witness:
  "processVariations
     (Some [Raw (Some '' incline '') (Some ''Incline'') (Some []) (JString ''true'')
        (Some [Raw (Some ''low'') (Some '' Low'') None JUndefined None None]) None])
     Variacion {''squat''} =
     Inr ([Node ''incline'' ''Incline'' None True
             (Some [Node ''low'' ''Low'' None False None None]) None],
          {''squat'', ''incline'', ''low''}) \<and>
   roundtrip (Node ''incline'' ''Incline'' None True
             (Some [Node ''low'' ''Low'' None False None None]) None) =
     Raw (Some ''incline'') (Some ''Incline'') None (JString ''true'')
       (Some [Raw (Some ''low'') (Some ''Low'') None (JString ''false'') None None]) None \<and>
   processVariations
     (Some (map roundtrip [Node ''incline'' ''Incline'' None True
             (Some [Node ''low'' ''Low'' None False None None]) None]))
     Variacion {} =
     Inr ([Node ''incline'' ''Incline'' None True
             (Some [Node ''low'' ''Low'' None False None None]) None],
          {''incline'', ''low''})"
proof -
  let ?raw = "Some [Raw (Some '' incline '') (Some ''Incline'') (Some []) (JString ''true'')
        (Some [Raw (Some ''low'') (Some '' Low'') None JUndefined None None]) None]"
  let ?out = "[Node ''incline'' ''Incline'' None True
             (Some [Node ''low'' ''Low'' None False None None]) None]"
  have 1: "processVariations ?raw Variacion {''squat''} =
      Inr (?out, {''squat'', ''incline'', ''low''})"
    by code_simp
  have 2: "{} \<subseteq> {''squat''}" by simp
  have 3: "{} \<union> ({''squat'', ''incline'', ''low''} - {''squat''}) = {''incline'', ''low''}"
    by code_simp
  have 4: "roundtrip (Node ''incline'' ''Incline'' None True
             (Some [Node ''low'' ''Low'' None False None None]) None) =
     Raw (Some ''incline'') (Some ''Incline'') None (JString ''true'')
       (Some [Raw (Some ''low'') (Some ''Low'') None (JString ''false'') None None]) None"
    by simp
  from renormalization_idempotent [OF 1 2]
  have 5: "processVariations (Some (map roundtrip ?out)) Variacion {} =
      Inr (?out, {''incline'', ''low''})"
    by (simp only: 3)
  from 1 4 5 show ?thesis by (intro conjI)
qed

subsection \<open>C5: trimming of identifiers and names\<close>

text \<open>
  C5, as stated, fails at the level of the base exercise: the base name is not trimmed
  and a name of two spaces, empty after trimming, is accepted and stored as it is.
\<close>

theorem base_name_not_trimmed_counterexample:
  "trim (str (baseName blankNameReq)) = [] \<and>
   save_exercise exampleCompare ''t2'' blankNameReq emptyStore =
     (Success200 Anadido,
      \<lparr>content = [\<lparr>grp_group = ''Chest'',
                    grp_items = [\<lparr>ex_id = ''bench-press'', ex_name = ''  '',
                                  ex_variations = None\<rparr>]\<rparr>],
       sha = ''t2''\<rparr>)"
  by code_simp

text \<open>
  C5, amended: for every node below the base exercise (variations, sub-variations,
  execution types) identifier and name are trimmed before any check and the normalized
  output holds the trimmed identifier and name; a node whose name is empty after trimming
  makes the normalization fail, with EmptyName for its level when its identifier is of
  the syntax and no node before it fails. The base exercise is not trimmed: a missing or
  empty base name is rejected with 400, and a committed exercise has the identifier and
  the name as submitted.
\<close>

theorem nested_nodes_trimmed:
  "(processVariations ld l S = Inr (out, S') \<longrightarrow> out = expected ld l) \<and>
   (visited ld l = pre @ (k, x) # post \<and> submittedName x = [] \<longrightarrow>
      (\<exists>e. processVariations ld l S = Inl e) \<and>
      (scan pre S = None \<and> idRegex (submittedId x) \<longrightarrow>
         processVariations ld l S = Inl (EmptyName k))) \<and>
   (\<not> truthy (baseName req) \<longrightarrow> save_exercise lc newSha req st = (BadRequest400, st)) \<and>
   (save_exercise lc newSha req st = (Success200 kind, st') \<longrightarrow>
      (\<exists>e\<in>set (allItems (content st')).
          ex_id e = str (baseId req) \<and> ex_name e = str (baseName req)))"
proof (intro conjI impI)
  assume "processVariations ld l S = Inr (out, S')"
  then show "out = expected ld l" by (simp add: processVariations_Inr_iff)
next
  assume a: "visited ld l = pre @ (k, x) # post \<and> submittedName x = []"
  then have "\<not> validNode x" by (simp add: validNode_def)
  with a show "\<exists>e. processVariations ld l S = Inl e"
    using invalid_node_fails by blast
  assume "scan pre S = None \<and> idRegex (submittedId x)"
  with a show "processVariations ld l S = Inl (EmptyName k)"
    by (simp add: processVariations_Inl_iff scan_first_error)
next
  assume "\<not> truthy (baseName req)"
  then show "save_exercise lc newSha req st = (BadRequest400, st)"
    by (simp add: save_exercise_def basicOk_def)
next
  assume "save_exercise lc newSha req st = (Success200 kind, st')"
  then show "\<exists>e\<in>set (allItems (content st')).
          ex_id e = str (baseId req) \<and> ex_name e = str (baseName req)"
    by (rule save_exercise_stores_base)
qed

theorem nested_nodes_trimmed_witness:
  "processVariations (Some [Raw (Some '' incline '') (Some '' Incline  '') None JUndefined None None])
      Variacion {} = Inr ([Node ''incline'' ''Incline'' None False None None], {''incline''}) \<and>
   expected (Some [Raw (Some '' incline '') (Some '' Incline  '') None JUndefined None None])
      Variacion = [Node ''incline'' ''Incline'' None False None None] \<and>
   submittedName (Raw (Some ''decline'') (Some ''   '') None JUndefined None None) = [] \<and>
   processVariations (variations paddedReq) Variacion {} = Inl (EmptyName Variacion) \<and>
   save_exercise exampleCompare ''t2'' (blankNameReq\<lparr>baseName := None\<rparr>) emptyStore =
     (BadRequest400, emptyStore) \<and>
   (\<exists>e\<in>set (allItems (content (snd (save_exercise exampleCompare ''t2'' blankNameReq emptyStore)))).
       ex_id e = ''bench-press'' \<and> ex_name e = ''  '')"
proof -
  let ?a = "Raw (Some '' incline '') (Some '' Incline  '') None JUndefined None None"
  let ?b = "Raw (Some ''decline'') (Some ''   '') None JUndefined None None"
  have 1: "processVariations (Some [?a]) Variacion {} =
      Inr ([Node ''incline'' ''Incline'' None False None None], {''incline''})"
    by code_simp
  have e1: "expected (Some [?a]) Variacion = [Node ''incline'' ''Incline'' None False None None]"
    using nested_nodes_trimmed [of "Some [?a]" Variacion "{}"
        "[Node ''incline'' ''Incline'' None False None None]" "{''incline''}"] 1
    by simp
  have 2: "visited (variations paddedReq) Variacion = [(Variacion, ?a)] @ (Variacion, ?b) # []"
    by (simp add: paddedReq_def)
  have 3: "submittedName ?b = []" by code_simp
  have 4: "scan [(Variacion, ?a)] {} = None" "idRegex (submittedId ?b)" by code_simp+
  have 5: "processVariations (variations paddedReq) Variacion {} = Inl (EmptyName Variacion)"
    using nested_nodes_trimmed [of "variations paddedReq" Variacion "{}" _ _ "[(Variacion, ?a)]"
        Variacion ?b "[]"] 2 3 4
    by blast
  have 6: "\<not> truthy (baseName (blankNameReq\<lparr>baseName := None\<rparr>))" by (simp add: truthy_def)
  have 7: "save_exercise exampleCompare ''t2'' (blankNameReq\<lparr>baseName := None\<rparr>) emptyStore =
     (BadRequest400, emptyStore)"
    using nested_nodes_trimmed [where req = "blankNameReq\<lparr>baseName := None\<rparr>"
        and lc = exampleCompare and newSha = "''t2''" and st = emptyStore] 6
    by blast
  have 8: "save_exercise exampleCompare ''t2'' blankNameReq emptyStore =
     (Success200 Anadido, snd (save_exercise exampleCompare ''t2'' blankNameReq emptyStore))"
    by code_simp
  have 9: "str (baseId blankNameReq) = ''bench-press''" "str (baseName blankNameReq) = ''  ''"
    by (simp_all add: blankNameReq_def str_def)
  have 10: "\<exists>e\<in>set (allItems (content (snd (save_exercise exampleCompare ''t2'' blankNameReq emptyStore)))).
       ex_id e = ''bench-press'' \<and> ex_name e = ''  ''"
    using nested_nodes_trimmed [where req = blankNameReq and lc = exampleCompare
        and newSha = "''t2''" and st = emptyStore and kind = Anadido
        and st' = "snd (save_exercise exampleCompare ''t2'' blankNameReq emptyStore)"] 8
    unfolding 9 by blast
  show ?thesis using 1 e1 3 5 7 10 by blast
qed

subsection \<open>C6: the syntax of identifiers\<close>

text \<open>
  C6, as stated, fails: the submitted identifier \<^verbatim>\<open>' abc'\<close> of a variation contains a
  space and is accepted, because identifiers below the base exercise are trimmed before
  they are tested.
\<close>

theorem padded_id_accepted_counterexample:
  "CHR '' '' \<in> set '' abc'' \<and>
   processVariations (Some [Raw (Some '' abc'') (Some ''N'') None JUndefined None None])
     Variacion {} = Inr ([Node ''abc'' ''N'' None False None None], {''abc''})"
  by code_simp

text \<open>
  C6, amended: a node below the base exercise whose identifier, after trimming, contains
  an upper-case letter, an underscore, a space or any other character outside
  \<^verbatim>\<open>[a-z0-9-]\<close> makes the normalization fail, with InvalidId for its level when no node
  before it fails; a base identifier that contains such a character (it is not trimmed)
  is rejected with 400 and nothing is committed.
\<close>

theorem invalid_id_rejected:
  assumes "\<not> idChar c"
  shows "list_all (\<lambda>c. \<not> idChar c) ''ABCDEFGHIJKLMNOPQRSTUVWXYZ_ '' \<and>
         (visited ld l = pre @ (k, x) # post \<and> c \<in> set (submittedId x) \<longrightarrow>
            (\<exists>e. processVariations ld l S = Inl e) \<and>
            (scan pre S = None \<longrightarrow> processVariations ld l S = Inl (InvalidId k))) \<and>
         (c \<in> set (str (baseId req)) \<longrightarrow>
            save_exercise lc newSha req st = (BadRequest400, st))"
proof (intro conjI impI)
  show "list_all (\<lambda>c. \<not> idChar c) ''ABCDEFGHIJKLMNOPQRSTUVWXYZ_ ''"
    by (rule forbidden_not_idChar)
next
  assume a: "visited ld l = pre @ (k, x) # post \<and> c \<in> set (submittedId x)"
  then have bad: "\<not> idRegex (submittedId x)"
    using forbidden_not_idRegex [OF assms] by blast
  then have "\<not> validNode x" by (simp add: validNode_def)
  with a show "\<exists>e. processVariations ld l S = Inl e"
    using invalid_node_fails by blast
  assume "scan pre S = None"
  with a bad show "processVariations ld l S = Inl (InvalidId k)"
    by (simp add: processVariations_Inl_iff scan_first_error)
next
  assume "c \<in> set (str (baseId req))"
  then have "\<not> idRegex (str (baseId req))"
    using forbidden_not_idRegex [OF assms] by blast
  then show "save_exercise lc newSha req st = (BadRequest400, st)"
    by (simp add: save_exercise_def basicOk_def)
qed

theorem invalid_id_rejected_witness:
  "\<not> idChar (CHR ''_'') \<and>
   CHR ''_'' \<in> set (submittedId (Raw (Some '' in_cline '') (Some ''Incline'') None JUndefined None None)) \<and>
   processVariations (Some [Raw (Some '' in_cline '') (Some ''Incline'') None JUndefined None None])
     Variacion {} = Inl (InvalidId Variacion) \<and>
   CHR ''_'' \<in> set (str (baseId upperIdReq)) \<and>
   save_exercise exampleCompare ''t2'' upperIdReq emptyStore = (BadRequest400, emptyStore)"
proof -
  let ?x = "Raw (Some '' in_cline '') (Some ''Incline'') None JUndefined None None"
  have 1: "\<not> idChar (CHR ''_'')" by (simp add: idChar_def)
  have 2: "visited (Some [?x]) Variacion = [] @ (Variacion, ?x) # []" by simp
  have 3: "CHR ''_'' \<in> set (submittedId ?x)" by code_simp
  have 4: "scan [] {} = None" by simp
  have 5: "CHR ''_'' \<in> set (str (baseId upperIdReq))" by code_simp
  note t = invalid_id_rejected [OF 1, where ld = "Some [?x]" and l = Variacion and pre = "[]"
      and k = Variacion and x = ?x and post = "[]" and S = "{}" and req = upperIdReq
      and lc = exampleCompare and newSha = "''t2''" and st = emptyStore]
  have 6: "processVariations (Some [?x]) Variacion {} = Inl (InvalidId Variacion)"
    using t 2 3 4 by blast
  have 7: "save_exercise exampleCompare ''t2'' upperIdReq emptyStore = (BadRequest400, emptyStore)"
    using t 5 by blast
  show ?thesis using 1 3 5 6 7 by blast
qed

subsection \<open>C7: an update replaces in place\<close>

text \<open>
  C7, as stated for every document, fails: the loop of the edit branch stops at the first
  entry that has the original identifier. In a document where two top-level exercises have
  the identifier \<^verbatim>\<open>squat\<close>, an update from \<^verbatim>\<open>squat\<close> to \<^verbatim>\<open>back-squat\<close> is committed
  and an entry \<^verbatim>\<open>squat\<close> is still there.
\<close>

theorem duplicate_original_remains_counterexample:
  "save_exercise exampleCompare ''t2'' renameSquatReq twoSquats =
     (Success200 Actualizado,
      \<lparr>content =
         [\<lparr>grp_group = ''Back'',
           grp_items = [\<lparr>ex_id = ''back-squat'', ex_name = ''Back Squat'',
                         ex_variations = None\<rparr>]\<rparr>,
          \<lparr>grp_group = ''Legs'',
           grp_items = [\<lparr>ex_id = ''squat'', ex_name = ''Squat'', ex_variations = None\<rparr>]\<rparr>],
       sha = ''t2''\<rparr>) \<and>
   str (originalBaseId renameSquatReq) \<noteq> str (baseId renameSquatReq) \<and>
   str (originalBaseId renameSquatReq) \<in>
     ex_id ` set (allItems (content (snd (save_exercise exampleCompare ''t2'' renameSquatReq twoSquats))))"
  by code_simp

text \<open>
  C7, amended: for an update (\<^verbatim>\<open>editMode\<close> is \<^verbatim>\<open>'true'\<close> and \<^verbatim>\<open>originalBaseId\<close> is not
  empty) that is committed, the number of top-level exercises is unchanged, and the
  committed document is the sorted form of the old document with one entry replaced in
  place: the first entry that has the original identifier (in the first group that has
  one, at its position in that group) holds the submitted exercise, every group keeps its
  name and every other entry stays where it was; nothing is appended. When the top-level
  identifiers of the document are distinct, as the data model requires, no entry with the
  original identifier is left unless it is the identifier of the submitted exercise. When
  no entry has the original identifier nothing is committed and the response is never a
  success; it is the failure NotFound when the request passes the checks that come
  before.
\<close>

theorem update_replaces_in_place:
  assumes "editMode req = Some ''true''" and "truthy (originalBaseId req)"
  shows
    "(save_exercise lc newSha req st = (Success200 kind, st') \<longrightarrow>
        kind = Actualizado \<and>
        length (allItems (content st')) = length (allItems (content st)) \<and>
        (\<exists>gi i pv ids.
            processVariations (variations req) Variacion
              (collectAllIds (editMode req) (originalBaseId req) (content st)) = Inr (pv, ids) \<and>
            gi < length (content st) \<and> i < length (grp_items (content st ! gi)) \<and>
            ex_id (grp_items (content st ! gi) ! i) = str (originalBaseId req) \<and>
            (\<forall>j<gi. str (originalBaseId req) \<notin> ex_id ` set (grp_items (content st ! j))) \<and>
            (\<forall>j<i. ex_id (grp_items (content st ! gi) ! j) \<noteq> str (originalBaseId req)) \<and>
            st' = \<lparr>content = sortAll lc
                     ((content st)[gi := (content st ! gi)
                        \<lparr>grp_items := (grp_items (content st ! gi))
                           [i := mkExerciseObject lc (str (baseId req)) (str (baseName req)) pv]\<rparr>]),
                   sha = newSha\<rparr>) \<and>
        (distinct (map ex_id (allItems (content st))) \<and>
         str (originalBaseId req) \<noteq> str (baseId req) \<longrightarrow>
           str (originalBaseId req) \<notin> ex_id ` set (allItems (content st')))) \<and>
     (str (originalBaseId req) \<notin> ex_id ` set (allItems (content st)) \<longrightarrow>
        snd (save_exercise lc newSha req st) = st \<and>
        (\<forall>k. fst (save_exercise lc newSha req st) \<noteq> Success200 k) \<and>
        (basicOk req \<and> fileSha req = Some (sha st) \<and>
         str (baseId req) \<notin> collectAllIds (editMode req) (originalBaseId req) (content st) \<and>
         (\<exists>r. processVariations (variations req) Variacion
                (collectAllIds (editMode req) (originalBaseId req) (content st)) = Inr r) \<longrightarrow>
           fst (save_exercise lc newSha req st) =
             ServerError500 (NotFound (str (originalBaseId req)))))"
proof (intro conjI impI)
  assume ok: "save_exercise lc newSha req st = (Success200 kind, st')"
  from save_exercise_update [OF assms ok] obtain pv ids d where
    k: "kind = Actualizado"
    and p: "processVariations (variations req) Variacion
              (collectAllIds (editMode req) (originalBaseId req) (content st)) = Inr (pv, ids)"
    and u: "updateLoop (str (originalBaseId req))
              (mkExerciseObject lc (str (baseId req)) (str (baseName req)) pv) (content st) = Some d"
    and st': "st' = \<lparr>content = sortAll lc d, sha = newSha\<rparr>"
    by blast
  let ?new = "mkExerciseObject lc (str (baseId req)) (str (baseName req)) pv"
  from updateLoop_Some [OF u] obtain old where
    old: "old \<in> set (allItems (content st))" "ex_id old = str (originalBaseId req)"
    and m: "mset (allItems d) = add_mset ?new (mset (allItems (content st)) - {#old#})"
    by blast
  have m': "mset (allItems (content st')) =
      add_mset ?new (mset (allItems (content st)) - {#old#})"
    using m by (simp add: st' mset_allItems_sortAll)
  have idnew: "ex_id ?new = str (baseId req)" by (simp add: mkExerciseObject_def)
  show "kind = Actualizado" by (rule k)
  have "size (mset (allItems (content st'))) = size (mset (allItems (content st)))"
    unfolding m' using old(1) length_pos_if_in_set [OF old(1)]
    by (simp add: size_Diff_singleton)
  then show "length (allItems (content st')) = length (allItems (content st))" by simp
  from updateLoop_in_place [OF u] obtain gi i where
    "gi < length (content st)" "i < length (grp_items (content st ! gi))"
    "ex_id (grp_items (content st ! gi) ! i) = str (originalBaseId req)"
    "\<forall>j<gi. str (originalBaseId req) \<notin> ex_id ` set (grp_items (content st ! j))"
    "\<forall>j<i. ex_id (grp_items (content st ! gi) ! j) \<noteq> str (originalBaseId req)"
    "d = (content st)[gi := (content st ! gi)
            \<lparr>grp_items := (grp_items (content st ! gi))[i := ?new]\<rparr>]"
    by blast
  with p st' show "\<exists>gi i pv ids.
            processVariations (variations req) Variacion
              (collectAllIds (editMode req) (originalBaseId req) (content st)) = Inr (pv, ids) \<and>
            gi < length (content st) \<and> i < length (grp_items (content st ! gi)) \<and>
            ex_id (grp_items (content st ! gi) ! i) = str (originalBaseId req) \<and>
            (\<forall>j<gi. str (originalBaseId req) \<notin> ex_id ` set (grp_items (content st ! j))) \<and>
            (\<forall>j<i. ex_id (grp_items (content st ! gi) ! j) \<noteq> str (originalBaseId req)) \<and>
            st' = \<lparr>content = sortAll lc
                     ((content st)[gi := (content st ! gi)
                        \<lparr>grp_items := (grp_items (content st ! gi))
                           [i := mkExerciseObject lc (str (baseId req)) (str (baseName req)) pv]\<rparr>]),
                   sha = newSha\<rparr>"
    by blast
  assume "distinct (map ex_id (allItems (content st))) \<and>
         str (originalBaseId req) \<noteq> str (baseId req)"
  then have dist: "distinct (map ex_id (allItems (content st)))"
    and ne: "ex_id ?new \<noteq> ex_id old"
    using old(2) idnew by auto
  from replaced_id_gone [OF dist old(1) ne m']
  show "str (originalBaseId req) \<notin> ex_id ` set (allItems (content st'))"
    by (simp add: old(2))
next
  assume nf: "str (originalBaseId req) \<notin> ex_id ` set (allItems (content st))"
  show "snd (save_exercise lc newSha req st) = st"
    by (rule save_exercise_not_found(1) [OF assms nf])
  show "\<forall>k. fst (save_exercise lc newSha req st) \<noteq> Success200 k"
    using save_exercise_not_found(2) [OF assms nf] by blast
  assume "basicOk req \<and> fileSha req = Some (sha st) \<and>
         str (baseId req) \<notin> collectAllIds (editMode req) (originalBaseId req) (content st) \<and>
         (\<exists>r. processVariations (variations req) Variacion
                (collectAllIds (editMode req) (originalBaseId req) (content st)) = Inr r)"
  then show "fst (save_exercise lc newSha req st) =
             ServerError500 (NotFound (str (originalBaseId req)))"
    using save_exercise_not_found(3) [OF assms nf] by blast
qed

theorem update_replaces_in_place_witness:
  "save_exercise exampleCompare ''t2'' renameSquatReq twoGroups = (Success200 Actualizado, twoGroupsRenamed) \<and>
   length (allItems (content twoGroupsRenamed)) = length (allItems (content twoGroups)) \<and>
   (\<exists>gi i. ex_id (grp_items (content twoGroups ! gi) ! i) = ''squat'' \<and>
      twoGroupsRenamed =
        \<lparr>content = sortAll exampleCompare
           ((content twoGroups)[gi := (content twoGroups ! gi)
              \<lparr>grp_items := (grp_items (content twoGroups ! gi))
                 [i := \<lparr>ex_id = ''back-squat'', ex_name = ''Back Squat'', ex_variations = None\<rparr>]\<rparr>]),
         sha = ''t2''\<rparr>) \<and>
   ''squat'' \<in> ex_id ` set (allItems (content twoGroups)) \<and>
   ''squat'' \<notin> ex_id ` set (allItems (content twoGroupsRenamed)) \<and>
   ''deadlift'' \<notin> ex_id ` set (allItems (content twoGroups)) \<and>
   save_exercise exampleCompare ''t2'' editMissingReq twoGroups =
     (ServerError500 (NotFound ''deadlift''), twoGroups)"
proof -
  have 1: "editMode renameSquatReq = Some ''true''" "truthy (originalBaseId renameSquatReq)"
    "editMode editMissingReq = Some ''true''" "truthy (originalBaseId editMissingReq)"
    by code_simp+
  have 2: "save_exercise exampleCompare ''t2'' renameSquatReq twoGroups =
      (Success200 Actualizado, twoGroupsRenamed)"
    by code_simp
  have 3: "distinct (map ex_id (allItems (content twoGroups)))"
    "str (originalBaseId renameSquatReq) \<noteq> str (baseId renameSquatReq)"
    "str (originalBaseId renameSquatReq) = ''squat''"
    "''squat'' \<in> ex_id ` set (allItems (content twoGroups))"
    by code_simp+
  have 4: "str (originalBaseId editMissingReq) \<notin> ex_id ` set (allItems (content twoGroups))"
    "str (originalBaseId editMissingReq) = ''deadlift''"
    "basicOk editMissingReq" "fileSha editMissingReq = Some (sha twoGroups)"
    "str (baseId editMissingReq) \<notin>
       collectAllIds (editMode editMissingReq) (originalBaseId editMissingReq) (content twoGroups)"
    by code_simp+
  have 5: "processVariations (variations editMissingReq) Variacion
       (collectAllIds (editMode editMissingReq) (originalBaseId editMissingReq) (content twoGroups)) =
       Inr ([], {''row'', ''lunge'', ''squat''})"
    by code_simp
  have 7: "processVariations (variations renameSquatReq) Variacion
       (collectAllIds (editMode renameSquatReq) (originalBaseId renameSquatReq) (content twoGroups)) =
       Inr ([], {''row'', ''lunge''})"
    by code_simp
  have 8: "mkExerciseObject exampleCompare (str (baseId renameSquatReq))
       (str (baseName renameSquatReq)) [] =
       \<lparr>ex_id = ''back-squat'', ex_name = ''Back Squat'', ex_variations = None\<rparr>"
    by (simp add: mkExerciseObject_def renameSquatReq_def str_def)
  note ok = update_replaces_in_place [OF 1(1,2), where lc = exampleCompare and newSha = "''t2''"
      and st = twoGroups and kind = Actualizado and st' = twoGroupsRenamed,
      THEN conjunct1, THEN mp, OF 2]
  have a: "length (allItems (content twoGroupsRenamed)) = length (allItems (content twoGroups))"
    using ok by blast
  have a2: "''squat'' \<notin> ex_id ` set (allItems (content twoGroupsRenamed))"
    using ok [THEN conjunct2, THEN conjunct2, THEN conjunct2] 3(1,2) unfolding 3(3) by blast
  from ok [THEN conjunct2, THEN conjunct2, THEN conjunct1] obtain gi i pv ids where
    p: "processVariations (variations renameSquatReq) Variacion
       (collectAllIds (editMode renameSquatReq) (originalBaseId renameSquatReq) (content twoGroups)) =
       Inr (pv, ids)"
    and m: "ex_id (grp_items (content twoGroups ! gi) ! i) = str (originalBaseId renameSquatReq)"
    and e: "twoGroupsRenamed = \<lparr>content = sortAll exampleCompare
                     ((content twoGroups)[gi := (content twoGroups ! gi)
                        \<lparr>grp_items := (grp_items (content twoGroups ! gi))
                           [i := mkExerciseObject exampleCompare (str (baseId renameSquatReq))
                                   (str (baseName renameSquatReq)) pv]\<rparr>]),
                   sha = ''t2''\<rparr>"
    by blast
  from p 7 have "pv = []" by simp
  with m e have a3: "\<exists>gi i. ex_id (grp_items (content twoGroups ! gi) ! i) = ''squat'' \<and>
      twoGroupsRenamed =
        \<lparr>content = sortAll exampleCompare
           ((content twoGroups)[gi := (content twoGroups ! gi)
              \<lparr>grp_items := (grp_items (content twoGroups ! gi))
                 [i := \<lparr>ex_id = ''back-squat'', ex_name = ''Back Squat'', ex_variations = None\<rparr>]\<rparr>]),
         sha = ''t2''\<rparr>"
    unfolding 3(3) 8 [symmetric] by blast
  have 6: "\<exists>r. processVariations (variations editMissingReq) Variacion
       (collectAllIds (editMode editMissingReq) (originalBaseId editMissingReq) (content twoGroups)) = Inr r"
    using 5 by blast
  note nf = update_replaces_in_place [OF 1(3,4), where lc = exampleCompare and newSha = "''t2''"
      and st = twoGroups, THEN conjunct2, THEN mp, OF 4(1)]
  have "snd (save_exercise exampleCompare ''t2'' editMissingReq twoGroups) = twoGroups"
    using nf by (rule conjunct1)
  moreover have "fst (save_exercise exampleCompare ''t2'' editMissingReq twoGroups) =
      ServerError500 (NotFound (str (originalBaseId editMissingReq)))"
    using nf [THEN conjunct2, THEN conjunct2] 4(3,4,5) 6 by blast
  ultimately have b: "save_exercise exampleCompare ''t2'' editMissingReq twoGroups =
     (ServerError500 (NotFound ''deadlift''), twoGroups)"
    by (simp add: prod_eq_iff 4(2))
  from 2 a a3 3(4) a2 4(1) b show ?thesis unfolding 4(2) by (intro conjI)
qed

subsection \<open>C8: a create for a new group\<close>

text \<open>
  C8: a create request (one that is not an update) that passes every check, for a group
  name that no group of the document has up to case, is committed, and the committed
  document has exactly one group of that name up to case: the submitted name with the
  new exercise as its only item, the field \<^verbatim>\<open>variations\<close> absent when no variation
  was submitted. In particular the bench-press request of the specification, with the
  token of the store, turns the empty document into the one group \<^verbatim>\<open>Chest\<close> with the
  one exercise and no \<^verbatim>\<open>variations\<close> field.
\<close>

theorem create_in_new_group:
  assumes "basicOk req" and "fileSha req = Some (sha st)"
    and "\<not> (editMode req = Some ''true'' \<and> truthy (originalBaseId req))"
    and "str (baseId req) \<notin> collectAllIds (editMode req) (originalBaseId req) (content st)"
    and "processVariations (variations req) Variacion
           (collectAllIds (editMode req) (originalBaseId req) (content st)) = Inr (pv, ids)"
    and "\<forall>g\<in>set (content st). toLowerCase (grp_group g) \<noteq> toLowerCase (str (group req))"
  shows "fst (save_exercise lc newSha req st) = Success200 Anadido \<and>
         filter (\<lambda>g. toLowerCase (grp_group g) = toLowerCase (str (group req)))
           (content (snd (save_exercise lc newSha req st))) =
           [\<lparr>grp_group = str (group req),
             grp_items = [\<lparr>ex_id = str (baseId req), ex_name = str (baseName req),
                           ex_variations =
                             (if pv = [] then None
                              else Some (arraySort (\<lambda>a b. lc (node_name a) (node_name b)) pv))\<rparr>]\<rparr>] \<and>
         save_exercise lc newSha benchPressReq \<lparr>content = [], sha = ''t1''\<rparr> =
           (Success200 Anadido,
            \<lparr>content = [\<lparr>grp_group = ''Chest'',
                          grp_items = [\<lparr>ex_id = ''bench-press'', ex_name = ''Bench Press'',
                                        ex_variations = None\<rparr>]\<rparr>],
             sha = newSha\<rparr>)"
proof -
  let ?ex = "mkExerciseObject lc (str (baseId req)) (str (baseName req)) pv"
  have none: "findIndex (\<lambda>g. toLowerCase (grp_group g) = toLowerCase (str (group req))) (content st) = None"
    using assms(6) by (simp add: findIndex_None)
  have s: "save_exercise lc newSha req st =
      (Success200 Anadido,
       \<lparr>content = sortAll lc (content st @ [\<lparr>grp_group = str (group req), grp_items = [?ex]\<rparr>]),
        sha = newSha\<rparr>)"
    using save_exercise_create [OF assms(1-5)] none by (simp add: addNew_def)
  have f: "filter (\<lambda>g. toLowerCase (grp_group g) = toLowerCase (str (group req)))
        (sortAll lc (content st @ [\<lparr>grp_group = str (group req), grp_items = [?ex]\<rparr>])) =
        [\<lparr>grp_group = str (group req), grp_items = [?ex]\<rparr>]"
    using filter_sortAll_new_group [of "content st" "\<lambda>n. toLowerCase n = toLowerCase (str (group req))"
        "str (group req)" lc ?ex] assms(6)
    by simp
  have e: "save_exercise lc newSha benchPressReq \<lparr>content = [], sha = ''t1''\<rparr> =
           (Success200 Anadido,
            \<lparr>content = [\<lparr>grp_group = ''Chest'',
                          grp_items = [\<lparr>ex_id = ''bench-press'', ex_name = ''Bench Press'',
                                        ex_variations = None\<rparr>]\<rparr>],
             sha = newSha\<rparr>)"
    by (simp add: save_exercise_def benchPressReq_def request_defs collectAllIds_def
        mkExerciseObject_def addNew_def sortAll_def arraySort_def createOrUpdateFileContents_def)
  show ?thesis
    using s f e by (simp add: mkExerciseObject_def)
qed

theorem create_in_new_group_witness:
  "basicOk chestVariationReq \<and> fileSha chestVariationReq = Some (sha twoGroups) \<and>
   filter (\<lambda>g. toLowerCase (grp_group g) = toLowerCase ''Chest'')
     (content (snd (save_exercise exampleCompare ''t2'' chestVariationReq twoGroups))) =
     [\<lparr>grp_group = ''Chest'',
       grp_items = [\<lparr>ex_id = ''bench-press'', ex_name = ''Bench Press'',
                     ex_variations = Some [Node ''incline'' ''Incline'' None False None None]\<rparr>]\<rparr>]"
proof -
  have 1: "basicOk chestVariationReq" by code_simp
  have 2: "fileSha chestVariationReq = Some (sha twoGroups)" by code_simp
  have 3: "\<not> (editMode chestVariationReq = Some ''true'' \<and> truthy (originalBaseId chestVariationReq))"
    by code_simp
  have 4: "str (baseId chestVariationReq) \<notin>
      collectAllIds (editMode chestVariationReq) (originalBaseId chestVariationReq) (content twoGroups)"
    by code_simp
  have 5: "processVariations (variations chestVariationReq) Variacion
      (collectAllIds (editMode chestVariationReq) (originalBaseId chestVariationReq) (content twoGroups)) =
      Inr ([Node ''incline'' ''Incline'' None False None None], {''incline'', ''row'', ''lunge'', ''squat''})"
    by code_simp
  have 6: "\<forall>g\<in>set (content twoGroups).
      toLowerCase (grp_group g) \<noteq> toLowerCase (str (group chestVariationReq))"
    by code_simp
  have 7: "str (group chestVariationReq) = ''Chest''" "str (baseId chestVariationReq) = ''bench-press''"
    "str (baseName chestVariationReq) = ''Bench Press''"
    by (simp_all add: chestVariationReq_def str_def)
  show ?thesis
    using create_in_new_group [OF 1 2 3 4 5 6, of exampleCompare "''t2''"] 1 2
    by (simp add: 7 arraySort_def)
qed

subsection \<open>C9: the committed document is sorted\<close>

text \<open>
  C9: after a create or an update that is committed, the groups of the committed
  document are in the order of the comparator on their names, and in every group the
  items are in the order of the comparator on their names, whatever the order of
  insertion was. The comparator is the platform's \<^verbatim>\<open>localeCompare\<close>, the
  parameter \<open>lc\<close>, taken to be a consistent comparator (total and transitive), as a
  collation is.
\<close>

theorem committed_document_sorted:
  assumes "consistent lc"
    and "save_exercise lc newSha req st = (Success200 kind, st')"
  shows "sorted_wrt (\<lambda>a b. lc (grp_group a) (grp_group b) \<le> 0) (content st') \<and>
         (\<forall>g\<in>set (content st').
            sorted_wrt (\<lambda>a b. lc (ex_name a) (ex_name b) \<le> 0) (grp_items g))"
proof -
  from save_exercise_success [OF assms(2)] obtain d where "content st' = sortAll lc d"
    by auto
  with sortAll_groups_sorted [OF assms(1)] sortAll_items_sorted [OF assms(1)]
  show ?thesis by auto
qed

theorem committed_document_sorted_witness:
  "consistent exampleCompare \<and>
   save_exercise exampleCompare ''t2'' legPressReq twoGroups = (Success200 Anadido, twoGroupsAdded) \<and>
   sorted_wrt (\<lambda>a b. exampleCompare (grp_group a) (grp_group b) \<le> 0) (content twoGroupsAdded) \<and>
   sorted_wrt (\<lambda>a b. exampleCompare (ex_name a) (ex_name b) \<le> 0)
     (grp_items (content twoGroupsAdded ! 1))"
proof -
  have s: "save_exercise exampleCompare ''t2'' legPressReq twoGroups = (Success200 Anadido, twoGroupsAdded)"
    by code_simp
  have m: "content twoGroupsAdded ! 1 \<in> set (content twoGroupsAdded)"
    by (simp add: twoGroupsAdded_def)
  from committed_document_sorted [OF consistent_exampleCompare s]
  have "sorted_wrt (\<lambda>a b. exampleCompare (grp_group a) (grp_group b) \<le> 0) (content twoGroupsAdded)"
    and "\<forall>g\<in>set (content twoGroupsAdded).
      sorted_wrt (\<lambda>a b. exampleCompare (ex_name a) (ex_name b) \<le> 0) (grp_items g)"
    by simp_all
  with m s consistent_exampleCompare show ?thesis by blast
qed

subsection \<open>C10: edit mode without an original identifier\<close>

text \<open>
  C10: a request with \<^verbatim>\<open>editMode\<close> equal to \<^verbatim>\<open>'true'\<close> whose \<^verbatim>\<open>originalBaseId\<close> is
  absent or empty, and which passes the checks (the first check, the token, the
  identifiers), is not rejected and is not an update: the response is the one of an
  addition, the committed document has the exercises of the old one and the submitted
  exercise once more, and the submitted exercise is in a group of the requested name up
  to case.
\<close>

theorem edit_without_original_creates:
  assumes "editMode req = Some ''true''" and "\<not> truthy (originalBaseId req)"
    and "basicOk req" and "fileSha req = Some (sha st)"
    and "str (baseId req) \<notin> collectAllIds (editMode req) (originalBaseId req) (content st)"
    and "processVariations (variations req) Variacion
           (collectAllIds (editMode req) (originalBaseId req) (content st)) = Inr (pv, ids)"
  shows "fst (save_exercise lc newSha req st) = Success200 Anadido \<and>
         mset (allItems (content (snd (save_exercise lc newSha req st)))) =
           add_mset (mkExerciseObject lc (str (baseId req)) (str (baseName req)) pv)
             (mset (allItems (content st))) \<and>
         (\<exists>g\<in>set (content (snd (save_exercise lc newSha req st))).
            toLowerCase (grp_group g) = toLowerCase (str (group req)) \<and>
            mkExerciseObject lc (str (baseId req)) (str (baseName req)) pv \<in> set (grp_items g))"
proof -
  let ?ex = "mkExerciseObject lc (str (baseId req)) (str (baseName req)) pv"
  have "\<not> (editMode req = Some ''true'' \<and> truthy (originalBaseId req))"
    using assms(2) by simp
  from save_exercise_create [OF assms(3,4) this assms(5,6)]
  have s: "save_exercise lc newSha req st =
      (Success200 Anadido,
       \<lparr>content = sortAll lc (addNew (str (group req)) ?ex (content st)), sha = newSha\<rparr>)" .
  from addNew_has_group [of "str (group req)" ?ex "content st"]
  obtain g where g: "g \<in> set (addNew (str (group req)) ?ex (content st))"
    "toLowerCase (grp_group g) = toLowerCase (str (group req))" "?ex \<in> set (grp_items g)"
    by blast
  from sortAll_has_group [OF g(1) g(3), of lc]
  obtain g' where "g' \<in> set (sortAll lc (addNew (str (group req)) ?ex (content st)))"
    "grp_group g' = grp_group g" "?ex \<in> set (grp_items g')"
    by blast
  with g(2)
  have "\<exists>g'\<in>set (sortAll lc (addNew (str (group req)) ?ex (content st))).
      toLowerCase (grp_group g') = toLowerCase (str (group req)) \<and> ?ex \<in> set (grp_items g')"
    by (intro bexI [where x = g']) simp_all
  then show ?thesis
    using s by (simp add: mset_allItems_sortAll mset_allItems_addNew)
qed

theorem edit_without_original_creates_witness:
  "editMode editNoOriginalReq = Some ''true'' \<and> \<not> truthy (originalBaseId editNoOriginalReq) \<and>
   fst (save_exercise exampleCompare ''t2'' editNoOriginalReq twoGroups) = Success200 Anadido \<and>
   mset (allItems (content (snd (save_exercise exampleCompare ''t2'' editNoOriginalReq twoGroups)))) =
     add_mset \<lparr>ex_id = ''leg-press'', ex_name = ''Leg Press'', ex_variations = None\<rparr>
       (mset (allItems (content twoGroups)))"
proof -
  have 1: "editMode editNoOriginalReq = Some ''true''" by code_simp
  have 2: "\<not> truthy (originalBaseId editNoOriginalReq)" by code_simp
  have 3: "basicOk editNoOriginalReq" by code_simp
  have 4: "fileSha editNoOriginalReq = Some (sha twoGroups)" by code_simp
  have 5: "str (baseId editNoOriginalReq) \<notin>
      collectAllIds (editMode editNoOriginalReq) (originalBaseId editNoOriginalReq) (content twoGroups)"
    by code_simp
  have 6: "processVariations (variations editNoOriginalReq) Variacion
      (collectAllIds (editMode editNoOriginalReq) (originalBaseId editNoOriginalReq) (content twoGroups)) =
      Inr ([], {''row'', ''lunge'', ''squat''})"
    by code_simp
  have 7: "mkExerciseObject exampleCompare (str (baseId editNoOriginalReq)) (str (baseName editNoOriginalReq)) [] =
      \<lparr>ex_id = ''leg-press'', ex_name = ''Leg Press'', ex_variations = None\<rparr>"
    by (simp add: editNoOriginalReq_def str_def mkExerciseObject_def)
  show ?thesis
    using edit_without_original_creates [OF 1 2 3 4 5 6, of exampleCompare "''t2''"] 1 2
    by (simp add: 7)
qed

end
